theory Spec2Isabelle
  imports Main "HOL-Library.Char_ord" "HOL-Library.List_Lexorder"
begin

section \<open>Go strings\<close>

text \<open>
  A Go \<^verbatim>\<open>string\<close> is a sequence of bytes; it is modelled as \<^typ>\<open>string\<close>
  (a list of 8-bit characters).  The functions of package \<^verbatim>\<open>strings\<close> that the
  program calls are written out below.  \<^verbatim>\<open>Index\<close> and \<^verbatim>\<open>Split\<close> are only ever
  called with a one-byte separator (\<^verbatim>\<open>":"\<close>, \<^verbatim>\<open>"/"\<close>, \<^verbatim>\<open>"."\<close>), so the model
  takes that byte.
\<close>

definition HasPrefix :: "string \<Rightarrow> string \<Rightarrow> bool" where
  "HasPrefix s prefix = (length prefix \<le> length s \<and> take (length prefix) s = prefix)"

definition TrimPrefix :: "string \<Rightarrow> string \<Rightarrow> string" where
  "TrimPrefix s prefix = (if HasPrefix s prefix then drop (length prefix) s else s)"

definition Index :: "string \<Rightarrow> char \<Rightarrow> int" where
  "Index s sep = (if sep \<in> set s then int (length (takeWhile (\<lambda>c. c \<noteq> sep) s)) else - 1)"

fun Split :: "string \<Rightarrow> char \<Rightarrow> string list" where
  "Split [] sep = [[]]"
| "Split (c # s) sep =
     (if c = sep then [] # Split s sep
      else (case Split s sep of [] \<Rightarrow> [[c]] | seg # segs \<Rightarrow> (c # seg) # segs))"

fun Join :: "string list \<Rightarrow> string \<Rightarrow> string" where
  "Join [] sep = []"
| "Join [a] sep = a"
| "Join (a # b # rest) sep = a @ sep @ Join (b # rest) sep"

text \<open>
  \<^verbatim>\<open>ReplaceAll(s, old, new)\<close>, which is \<^verbatim>\<open>Replace(s, old, new, -1)\<close>: the text is read
  from left to right, every occurrence of \<open>old\<close> that does not overlap the one before is
  replaced by \<open>new\<close> (\<open>skip\<close> counts the bytes of an occurrence still to be passed over).
  For an empty \<open>old\<close> Go puts \<open>new\<close> before every UTF-8 sequence and at the end; the
  program never passes one, and the model works on bytes there.
\<close>

fun replaceScan :: "nat \<Rightarrow> string \<Rightarrow> string \<Rightarrow> string \<Rightarrow> string" where
  "replaceScan skip [] old new = []"
| "replaceScan skip (c # s) old new =
     (if 0 < skip then replaceScan (skip - 1) s old new
      else if HasPrefix (c # s) old then new @ replaceScan (length old - 1) s old new
      else c # replaceScan 0 s old new)"

definition ReplaceAll :: "string \<Rightarrow> string \<Rightarrow> string \<Rightarrow> string" where
  "ReplaceAll s old new =
     (if old = [] then concat (map (\<lambda>c. new @ [c]) s) @ new else replaceScan 0 s old new)"

text \<open>Decimal rendering of integers, as the verb \<^verbatim>\<open>%d\<close> of \<^verbatim>\<open>fmt\<close> prints them.\<close>

definition digitChar :: "nat \<Rightarrow> char" where
  "digitChar d = ''0123456789'' ! d"

fun formatNat :: "nat \<Rightarrow> string" where
  "formatNat n =
     (if n < 10 then [digitChar n]
      else formatNat (n div 10) @ [digitChar (n mod 10)])"

declare formatNat.simps [simp del]

definition formatInt :: "int \<Rightarrow> string" where
  "formatInt i = (if i < 0 then CHR ''-'' # formatNat (nat (- i)) else formatNat (nat i))"

section \<open>Package config\<close>

text \<open>
  The \<^verbatim>\<open>Config\<close> struct of \<^verbatim>\<open>pkg/config/config.go\<close>.  The field
  \<^verbatim>\<open>GitLabClient\<close> is an \<^verbatim>\<open>interface{}\<close> that is either nil or holds the
  client; only that distinction is observed, so it is a Boolean here.
\<close>

record Config =
  Verbose :: bool
  Quiet :: bool
  LogLevel :: string
  OutputFormat :: string
  DryRun :: bool
  ScanDir :: string
  CreateMR :: bool
  TargetBranch :: string
  TempDir :: string
  ClonedRepo :: bool
  GitLabUser :: string
  GitLabToken :: string
  GitLabRepo :: string
  GitLabProjectID :: string
  GitLabEmail :: string
  GitLabClient :: bool

definition DefaultLogLevel :: string where "DefaultLogLevel = ''INFO''"
definition DefaultOutputFormat :: string where "DefaultOutputFormat = ''text''"
definition DefaultTargetBranch :: string where "DefaultTargetBranch = ''main''"

text \<open>\<^verbatim>\<open>New\<close>: the fields the literal leaves out have Go's zero values.\<close>

definition New :: Config where
  "New = \<lparr>Verbose = False, Quiet = False, LogLevel = DefaultLogLevel,
          OutputFormat = DefaultOutputFormat, DryRun = False, ScanDir = [], CreateMR = False,
          TargetBranch = DefaultTargetBranch, TempDir = [], ClonedRepo = False,
          GitLabUser = [], GitLabToken = [], GitLabRepo = [], GitLabProjectID = [],
          GitLabEmail = [], GitLabClient = False\<rparr>"

definition EnvPrefix :: string where "EnvPrefix = ''IMG_UPGR_''"
definition EnvGitLabUser :: string where "EnvGitLabUser = EnvPrefix @ ''GL_USER''"
definition EnvGitLabToken :: string where "EnvGitLabToken = EnvPrefix @ ''GL_TOKEN''"
definition EnvGitLabRepo :: string where "EnvGitLabRepo = EnvPrefix @ ''GL_REPO''"
definition EnvGitLabEmail :: string where "EnvGitLabEmail = EnvPrefix @ ''GL_EMAIL''"

text \<open>
  Package \<^verbatim>\<open>validation\<close>.  A \<^verbatim>\<open>ValidationErrors\<close> value is the list of its
  (field, message) entries; \<^verbatim>\<open>HasErrors\<close> is non-emptiness.
\<close>

record ValidationError =
  Field :: string
  Message :: string

type_synonym ValidationErrors = "ValidationError list"

definition Add :: "ValidationErrors \<Rightarrow> string \<Rightarrow> string \<Rightarrow> ValidationErrors" where
  "Add e field message = e @ [\<lparr>Field = field, Message = message\<rparr>]"

definition HasErrors :: "ValidationErrors \<Rightarrow> bool" where
  "HasErrors e = (0 < length e)"

text \<open>
  \<^verbatim>\<open>GetMissingVars\<close> ranges over a Go map, whose iteration order is not fixed; the
  model keeps the map as an association list and visits it in the order of the literal.
  The order only shows in the text of the message.
\<close>

fun GetMissingVars :: "(string \<times> string) list \<Rightarrow> string list" where
  "GetMissingVars [] = []"
| "GetMissingVars ((name, val) # requiredVars) =
     (if val = [] then name # GetMissingVars requiredVars else GetMissingVars requiredVars)"

text \<open>
  \<^verbatim>\<open>url.Parse\<close> belongs to the Go standard library and is a parameter of the model:
  it yields an error text or the scheme and the host of the parsed URL.
\<close>

record URL =
  Scheme :: string
  Host :: string

type_synonym url_parse = "string \<Rightarrow> string + URL"

definition ValidateURL :: "url_parse \<Rightarrow> string \<Rightarrow> string option" where
  "ValidateURL parse urlStr =
     (if urlStr = [] then None
      else (case parse urlStr of
              Inl err \<Rightarrow> Some (''invalid URL: '' @ urlStr @ '' (parse error: '' @ err @ '')'')
            | Inr parsedURL \<Rightarrow>
                if Scheme parsedURL = [] \<or> Host parsedURL = []
                then Some (''invalid URL: '' @ urlStr @ '' (missing scheme or host)'')
                else None))"

definition requiredVars :: "Config \<Rightarrow> (string \<times> string) list" where
  "requiredVars c =
     [(EnvGitLabUser, GitLabUser c), (EnvGitLabToken, GitLabToken c),
      (EnvGitLabRepo, GitLabRepo c), (EnvGitLabEmail, GitLabEmail c)]"

definition ValidateGitLab :: "url_parse \<Rightarrow> Config \<Rightarrow> ValidationErrors option" where
  "ValidateGitLab parse c =
     (let validationErrors = [];
          validationErrors =
            (if CreateMR c then
               (let missingVars = GetMissingVars (requiredVars c);
                    errs = (if 0 < length missingVars
                            then Add validationErrors ''GitLab''
                                   (''missing required environment variables: '' @ Join missingVars '', '')
                            else validationErrors)
                in (case ValidateURL parse (GitLabRepo c) of
                      Some err \<Rightarrow> Add errs ''GitLabRepo'' err
                    | None \<Rightarrow> errs))
             else validationErrors)
      in if HasErrors validationErrors then Some validationErrors else None)"

section \<open>The semantic-version library\<close>

text \<open>
  Versions are parsed, printed and compared by the external module
  \<^verbatim>\<open>github.com/Masterminds/semver/v3\<close>, which the program imports; its code is not
  part of the repository.  \<^verbatim>\<open>NewVersion\<close>, \<^verbatim>\<open>String\<close>, \<^verbatim>\<open>Compare\<close> and
  \<^verbatim>\<open>GreaterThan\<close> are modelled after that module with its default settings:
  \<^verbatim>\<open>NewVersion\<close> is the lenient parser (the strict one is \<^verbatim>\<open>StrictNewVersion\<close>,
  which the program does not call).  It matches the text against
  \<^verbatim>\<open>^v?([0-9]+)(\.[0-9]+)?(\.[0-9]+)?(-([0-9A-Za-z\-]+(\.[0-9A-Za-z\-]+)*))?(\+([0-9A-Za-z\-]+(\.[0-9A-Za-z\-]+)*))?$\<close>,
  reads the numbers with \<^verbatim>\<open>strconv.ParseUint(_, 10, 64)\<close> and checks the
  pre-release and the build metadata.
\<close>

definition isDigit :: "char \<Rightarrow> bool" where
  "isDigit c = (c \<in> set ''0123456789'')"

definition num :: string where "num = ''0123456789''"
definition allowed :: string where
  "allowed = ''abcdefghijklmnopqrstuvwxyzABCDEFGHIJKLMNOPQRSTUVWXYZ-'' @ num"

definition containsOnly :: "string \<Rightarrow> string \<Rightarrow> bool" where
  "containsOnly s chars = list_all (\<lambda>r. r \<in> set chars) s"

definition digitValue :: "char \<Rightarrow> nat" where
  "digitValue c = of_char c - 48"

definition digitsValue :: "string \<Rightarrow> nat" where
  "digitsValue s = foldl (\<lambda>n c. 10 * n + digitValue c) 0 s"

definition ParseUint :: "string \<Rightarrow> nat option" where
  "ParseUint s =
     (if s = [] \<or> \<not> list_all isDigit s then None
      else if digitsValue s < 2 ^ 64 then Some (digitsValue s) else None)"

record Version =
  major :: nat
  minor :: nat
  patch :: nat
  pre :: string
  metadata :: string
  original :: string

text \<open>
  The regular expression, as a matcher that returns the submatches 1, 2, 3, 5 and 8 (major,
  \<^verbatim>\<open>.minor\<close>, \<^verbatim>\<open>.patch\<close>, pre-release, metadata).  Every group is greedy and the
  expression is anchored at both ends, so the match is unique: an optional \<^verbatim>\<open>v\<close>, the
  longest run of digits, up to two groups of a dot and digits, then a pre-release after
  \<^verbatim>\<open>-\<close> (up to the first \<^verbatim>\<open>+\<close>) and metadata after \<^verbatim>\<open>+\<close>, each a list of
  non-empty identifiers separated by dots.
\<close>

definition dotNumber :: "string \<Rightarrow> string \<times> string" where
  "dotNumber s =
     (case s of
        [] \<Rightarrow> ([], s)
      | c # r \<Rightarrow>
          if c = CHR ''.'' \<and> takeWhile isDigit r \<noteq> []
          then (c # takeWhile isDigit r, dropWhile isDigit r)
          else ([], s))"

definition identifiers :: "string \<Rightarrow> bool" where
  "identifiers s = list_all (\<lambda>p. p \<noteq> [] \<and> containsOnly p allowed) (Split s (CHR ''.''))"

definition versionRegex :: "string \<Rightarrow> (string \<times> string \<times> string \<times> string \<times> string) option" where
  "versionRegex v =
     (let s0 = (case v of [] \<Rightarrow> v | c # r \<Rightarrow> if c = CHR ''v'' then r else v);
          m1 = takeWhile isDigit s0;
          s1 = dropWhile isDigit s0;
          (m2, s2) = dotNumber s1;
          (m3, s3) = dotNumber s2;
          hasPre = (s3 \<noteq> [] \<and> hd s3 = CHR ''-'');
          m5 = (if hasPre then takeWhile (\<lambda>c. c \<noteq> CHR ''+'') (tl s3) else []);
          s4 = (if hasPre then dropWhile (\<lambda>c. c \<noteq> CHR ''+'') (tl s3) else s3);
          hasMeta = (s4 \<noteq> [] \<and> hd s4 = CHR ''+'');
          m8 = (if hasMeta then tl s4 else []);
          s5 = (if hasMeta then [] else s4)
      in if m1 \<noteq> [] \<and> (if hasPre then identifiers m5 else True) \<and>
            (if hasMeta then identifiers m8 else True) \<and> s5 = []
         then Some (m1, m2, m3, m5, m8) else None)"

definition validatePrerelease :: "string \<Rightarrow> bool" where
  "validatePrerelease p =
     list_all (\<lambda>p. if containsOnly p num then \<not> (1 < length p \<and> hd p = CHR ''0'')
                   else containsOnly p allowed) (Split p (CHR ''.''))"

definition validateMetadata :: "string \<Rightarrow> bool" where
  "validateMetadata m = list_all (\<lambda>p. containsOnly p allowed) (Split m (CHR ''.''))"

definition NewVersion :: "string \<Rightarrow> Version option" where
  "NewVersion v =
     (case versionRegex v of
        None \<Rightarrow> None
      | Some (m1, m2, m3, m5, m8) \<Rightarrow>
          (case ParseUint m1 of
             None \<Rightarrow> None
           | Some ma \<Rightarrow>
               (case (if m2 \<noteq> [] then ParseUint (TrimPrefix m2 ''.'') else Some 0) of
                  None \<Rightarrow> None
                | Some mi \<Rightarrow>
                    (case (if m3 \<noteq> [] then ParseUint (TrimPrefix m3 ''.'') else Some 0) of
                       None \<Rightarrow> None
                     | Some pa \<Rightarrow>
                         if m5 \<noteq> [] \<and> \<not> validatePrerelease m5 then None
                         else if m8 \<noteq> [] \<and> \<not> validateMetadata m8 then None
                         else Some \<lparr>major = ma, minor = mi, patch = pa, pre = m5,
                                     metadata = m8, original = v\<rparr>))))"

definition String :: "Version \<Rightarrow> string" where
  "String v =
     formatNat (major v) @ ''.'' @ formatNat (minor v) @ ''.'' @ formatNat (patch v) @
     (if pre v \<noteq> [] then ''-'' @ pre v else []) @
     (if metadata v \<noteq> [] then ''+'' @ metadata v else [])"

definition compareSegment :: "nat \<Rightarrow> nat \<Rightarrow> int" where
  "compareSegment v o' = (if v < o' then - 1 else if v > o' then 1 else 0)"

definition comparePrePart :: "string \<Rightarrow> string \<Rightarrow> int" where
  "comparePrePart s o' =
     (if s = o' then 0
      else if s = [] then (if o' \<noteq> [] then - 1 else 1)
      else if o' = [] then (if s \<noteq> [] then 1 else - 1)
      else (case (ParseUint o', ParseUint s) of
              (None, None) \<Rightarrow> (if s > o' then 1 else - 1)
            | (None, Some si) \<Rightarrow> - 1
            | (Some oi, None) \<Rightarrow> 1
            | (Some oi, Some si) \<Rightarrow> (if si > oi then 1 else - 1)))"

fun comparePreParts :: "string list \<Rightarrow> string list \<Rightarrow> int" where
  "comparePreParts [] [] = 0"
| "comparePreParts (s # sparts) [] =
     (let d = comparePrePart s [] in if d \<noteq> 0 then d else comparePreParts sparts [])"
| "comparePreParts [] (o' # oparts) =
     (let d = comparePrePart [] o' in if d \<noteq> 0 then d else comparePreParts [] oparts)"
| "comparePreParts (s # sparts) (o' # oparts) =
     (let d = comparePrePart s o' in if d \<noteq> 0 then d else comparePreParts sparts oparts)"

definition comparePrerelease :: "string \<Rightarrow> string \<Rightarrow> int" where
  "comparePrerelease v o' = comparePreParts (Split v (CHR ''.'')) (Split o' (CHR ''.''))"

definition Compare :: "Version \<Rightarrow> Version \<Rightarrow> int" where
  "Compare v o' =
     (if compareSegment (major v) (major o') \<noteq> 0 then compareSegment (major v) (major o')
      else if compareSegment (minor v) (minor o') \<noteq> 0 then compareSegment (minor v) (minor o')
      else if compareSegment (patch v) (patch o') \<noteq> 0 then compareSegment (patch v) (patch o')
      else if pre v = [] \<and> pre o' = [] then 0
      else if pre v = [] then 1
      else if pre o' = [] then - 1
      else comparePrerelease (pre v) (pre o'))"

definition GreaterThan :: "Version \<Rightarrow> Version \<Rightarrow> bool" where
  "GreaterThan v o' = (Compare v o' > 0)"

section \<open>Package update\<close>

text \<open>
  \<^verbatim>\<open>pkg/update/checker.go\<close>.  The two patterns are matched by Go's \<^verbatim>\<open>regexp\<close>,
  where \<^verbatim>\<open>.\<close> matches every character but the line feed, \<^verbatim>\<open>$\<close> matches at the
  end of the text only, and a negated class such as \<^verbatim>\<open>[^:]\<close> does match the line feed.

  \<^verbatim>\<open>ImageTagPattern = ^([^:]+):(.+)$\<close>: group 1 cannot cross a colon, so it is the
  text before the first colon and must not be empty; group 2 is the rest after that colon,
  not empty and free of line feeds.
\<close>

definition newline :: char where "newline = CHR 0x0A"

definition ImageTagPattern :: "string \<Rightarrow> (string \<times> string) option" where
  "ImageTagPattern img =
     (let repo = takeWhile (\<lambda>c. c \<noteq> CHR '':'') img;
          rest = dropWhile (\<lambda>c. c \<noteq> CHR '':'') img
      in (case rest of
            [] \<Rightarrow> None
          | colon # tag \<Rightarrow>
              if repo \<noteq> [] \<and> tag \<noteq> [] \<and> newline \<notin> set tag then Some (repo, tag) else None))"

text \<open>
  \<^verbatim>\<open>SemverTagPattern = ^(.*?)(\d+\.\d+\.\d+)$\<close>: group 1 is lazy, so the matcher tries
  the shortest prefix first and lets it grow by one character (never a line feed) until
  the remaining text as a whole is three non-empty runs of the digits 0-9 separated by
  dots.
\<close>

definition digits :: "string \<Rightarrow> bool" where
  "digits s = (s \<noteq> [] \<and> list_all isDigit s)"

definition triplet :: "string \<Rightarrow> bool" where
  "triplet s = (case Split s (CHR ''.'') of [a, b, c] \<Rightarrow> digits a \<and> digits b \<and> digits c | _ \<Rightarrow> False)"

text \<open>
  A run of digits carries no superfluous leading zero when it is a single digit or does not
  start with \<^verbatim>\<open>0\<close> (the test the library applies to numeric pre-release identifiers).
\<close>

definition noLeadingZero :: "string \<Rightarrow> bool" where
  "noLeadingZero s = (\<not> (1 < length s \<and> hd s = CHR ''0''))"

fun SemverTagPattern_from :: "string \<Rightarrow> string \<Rightarrow> (string \<times> string) option" where
  "SemverTagPattern_from skipped [] = (if triplet [] then Some (skipped, []) else None)"
| "SemverTagPattern_from skipped (c # rest) =
     (if triplet (c # rest) then Some (skipped, c # rest)
      else if c = newline then None
      else SemverTagPattern_from (skipped @ [c]) rest)"

definition SemverTagPattern :: "string \<Rightarrow> (string \<times> string) option" where
  "SemverTagPattern tag = SemverTagPattern_from [] tag"

datatype fetch_error =
  ContextCanceled | CreatingRequest | FetchingTags | UnexpectedStatusCode int
  | ReadingResponse | JSONParseError

datatype check_error =
  NoTagFound string | TagNotSemverLike string | InvalidSemanticVersion string
  | FailedToFindLatestVersion fetch_error

definition parseImageString :: "string \<Rightarrow> check_error + string \<times> string" where
  "parseImageString img =
     (case ImageTagPattern img of
        None \<Rightarrow> Inl (NoTagFound img)
      | Some (repo, tag) \<Rightarrow> Inr (repo, tag))"

definition extractVersionFromTag :: "string \<Rightarrow> check_error + string \<times> string" where
  "extractVersionFromTag tag =
     (case SemverTagPattern tag of
        None \<Rightarrow> Inl (TagNotSemverLike tag)
      | Some (prefix, versionStr) \<Rightarrow> Inr (prefix, versionStr))"

record VersionInfo =
  FullTag :: string
  Version :: Version

fun findMatchingVersions :: "string list \<Rightarrow> string \<Rightarrow> VersionInfo list" where
  "findMatchingVersions [] prefix = []"
| "findMatchingVersions (tag # tags) prefix =
     (if HasPrefix tag prefix then
        (case NewVersion (TrimPrefix tag prefix) of
           Some version \<Rightarrow> \<lparr>FullTag = tag, Version = version\<rparr> # findMatchingVersions tags prefix
         | None \<Rightarrow> findMatchingVersions tags prefix)
      else findMatchingVersions tags prefix)"

text \<open>
  \<^verbatim>\<open>sort.Slice\<close> of the Go standard library.  For slices of at most 12 elements it is
  the insertion sort below: each element in turn is swapped towards the front for as long
  as it is \<^verbatim>\<open>less\<close> than its left neighbour (the sorted part is kept in reverse in
  \<^term>\<open>insertionStep\<close>, nearest neighbour first).  Longer slices are sorted by
  pattern-defeating quicksort, which also yields a permutation in order but may place
  elements that compare equal differently; the model uses the insertion sort throughout.
\<close>

fun insertionStep :: "('a \<Rightarrow> 'a \<Rightarrow> bool) \<Rightarrow> 'a \<Rightarrow> 'a list \<Rightarrow> 'a list" where
  "insertionStep lt x [] = [x]"
| "insertionStep lt x (y # earlier) =
     (if lt x y then y # insertionStep lt x earlier else x # y # earlier)"

definition sortSlice :: "('a \<Rightarrow> 'a \<Rightarrow> bool) \<Rightarrow> 'a list \<Rightarrow> 'a list" where
  "sortSlice lt xs = rev (foldl (\<lambda>sorted x. insertionStep lt x sorted) [] xs)"

section \<open>Package docker\<close>

text \<open>
  \<^verbatim>\<open>pkg/docker\<close>: the registry client.  \<^verbatim>\<open>strings.Split\<close> never returns an
  empty slice, so the first case of \<^verbatim>\<open>ParseRepositoryName\<close> below is not reachable
  (lemma \<open>Split_not_Nil\<close>).
\<close>

record RepositoryInfo =
  Namespace :: string
  Name :: string
  FullName :: string

definition ParseRepositoryName :: "string \<Rightarrow> RepositoryInfo" where
  "ParseRepositoryName repo =
     (let idx = Index repo (CHR '':'');
          repo = (if idx > 0 then take (nat idx) repo else repo)
      in (case Split repo (CHR ''/'') of
            [] \<Rightarrow> \<lparr>Namespace = [], Name = [], FullName = repo\<rparr>
          | [name] \<Rightarrow> \<lparr>Namespace = ''library'', Name = name, FullName = ''library/'' @ name\<rparr>
          | namespace # name # others \<Rightarrow> \<lparr>Namespace = namespace, Name = name, FullName = repo\<rparr>))"

text \<open>
  Of \<^verbatim>\<open>DockerHubTag\<close> the program reads the field \<^verbatim>\<open>Name\<close> only (here
  \<open>TagName\<close>: \<open>Name\<close> is the field of \<^verbatim>\<open>RepositoryInfo\<close>).  A \<^verbatim>\<open>next\<close>
  that is absent or \<^verbatim>\<open>null\<close> in the JSON text decodes to the empty string.
\<close>

record DockerHubTag =
  TagName :: string

record DockerHubResponse =
  Results :: "DockerHubTag list"
  Next :: string
  Count :: int

text \<open>
  The network is a parameter.  One page request, made of
  \<^verbatim>\<open>http.NewRequestWithContext\<close>, \<^verbatim>\<open>httpClient.Do\<close>, \<^verbatim>\<open>io.ReadAll\<close> and
  \<^verbatim>\<open>json.Unmarshal\<close>, is a function from the URL and the state \<open>'s\<close> of the world to
  a reply and the next state: the request cannot be built, the transport fails, or a
  response arrives with its status code and a body that cannot be read, cannot be
  decoded, or decodes to a \<^verbatim>\<open>DockerHubResponse\<close>.  Every call of \<open>httpClient\<close> is one
  request on the wire, and the state it returns is the only trace of it.
\<close>

datatype body = ReadFailure | Undecodable | Decoded DockerHubResponse

datatype reply = RequestFailure | TransportFailure | Response int body

record 's Client =
  httpClient :: "string \<Rightarrow> 's \<Rightarrow> reply \<times> 's"
  pageSize :: int
  baseURL :: string

definition StatusOK :: int where "StatusOK = 200"

definition tagsURL :: "'s Client \<Rightarrow> RepositoryInfo \<Rightarrow> string" where
  "tagsURL c repoInfo =
     baseURL c @ ''/'' @ Namespace repoInfo @ ''/'' @ Name repoInfo @ ''/tags?page_size='' @
     formatInt (pageSize c)"

text \<open>
  The loop \<^verbatim>\<open>for url != ""\<close> of \<^verbatim>\<open>FetchAllTagsWithContext\<close>.  It runs for as long
  as the registry hands out a next page, so it is a partial function: \<open>None\<close> stands
  for a run that never returns.  \<open>ctxDone\<close> tells whether the context is cancelled in
  the current state of the world.
\<close>

partial_function (option) fetchPages ::
  "('s \<Rightarrow> bool) \<Rightarrow> 's Client \<Rightarrow> string \<Rightarrow> string list \<Rightarrow> 's \<Rightarrow> ((fetch_error + string list) \<times> 's) option"
where
  "fetchPages ctxDone c url tags s =
     (if url = [] then Some (Inr tags, s)
      else if ctxDone s then Some (Inl ContextCanceled, s)
      else (case httpClient c url s of
              (RequestFailure, s') \<Rightarrow> Some (Inl CreatingRequest, s')
            | (TransportFailure, s') \<Rightarrow> Some (Inl FetchingTags, s')
            | (Response StatusCode b, s') \<Rightarrow>
                if StatusCode \<noteq> StatusOK then Some (Inl (UnexpectedStatusCode StatusCode), s')
                else (case b of
                        ReadFailure \<Rightarrow> Some (Inl ReadingResponse, s')
                      | Undecodable \<Rightarrow> Some (Inl JSONParseError, s')
                      | Decoded parsed \<Rightarrow>
                          fetchPages ctxDone c (Next parsed) (tags @ map TagName (Results parsed)) s')))"

declare fetchPages.simps [code]

definition FetchAllTagsWithContext ::
  "('s \<Rightarrow> bool) \<Rightarrow> 's Client \<Rightarrow> string \<Rightarrow> 's \<Rightarrow> ((fetch_error + string list) \<times> 's) option" where
  "FetchAllTagsWithContext ctxDone c repo s =
     fetchPages ctxDone c (tagsURL c (ParseRepositoryName repo)) [] s"

definition Background :: "'s \<Rightarrow> bool" where
  "Background s = False"

definition FetchAllTags :: "'s Client \<Rightarrow> string \<Rightarrow> 's \<Rightarrow> ((fetch_error + string list) \<times> 's) option" where
  "FetchAllTags c repo s = FetchAllTagsWithContext Background c repo s"

text \<open>
  \<^verbatim>\<open>findLatestVersion\<close> and \<^verbatim>\<open>CheckImage\<close> of package \<^verbatim>\<open>update\<close>.  The field
  \<^verbatim>\<open>Version\<close> of \<^verbatim>\<open>ImageInfo\<close> is \<open>CurrentVersion\<close> here (\<open>Version\<close> is the
  field of \<^verbatim>\<open>VersionInfo\<close>).  Sorting keeps the length, so the empty case after
  \<open>sortSlice\<close> is not reachable (lemma \<open>length_sortSlice\<close>).
\<close>

record ImageInfo =
  Repository :: string
  Tag :: string
  Prefix :: string
  CurrentVersion :: Version
  LatestTag :: string
  LatestVersion :: "Version option"
  HasUpdate :: bool

definition findLatestVersion ::
  "'s Client \<Rightarrow> string \<Rightarrow> string \<Rightarrow> 's \<Rightarrow> ((fetch_error + VersionInfo option) \<times> 's) option" where
  "findLatestVersion dockerClient repo prefix s =
     (case FetchAllTags dockerClient repo s of
        None \<Rightarrow> None
      | Some (Inl err, s') \<Rightarrow> Some (Inl err, s')
      | Some (Inr tags, s') \<Rightarrow>
          (let matchedVersions = findMatchingVersions tags prefix
           in if length matchedVersions = 0 then Some (Inr None, s')
              else (case sortSlice (\<lambda>a b. GreaterThan (Version a) (Version b)) matchedVersions of
                      [] \<Rightarrow> Some (Inr None, s')
                    | latest # others \<Rightarrow> Some (Inr (Some latest), s'))))"

definition CheckImage ::
  "'s Client \<Rightarrow> string \<Rightarrow> 's \<Rightarrow> ((check_error + ImageInfo) \<times> 's) option" where
  "CheckImage dockerClient img s =
     (case parseImageString img of
        Inl err \<Rightarrow> Some (Inl err, s)
      | Inr (repo, tag) \<Rightarrow>
          (case extractVersionFromTag tag of
             Inl err \<Rightarrow> Some (Inl err, s)
           | Inr (prefix, versionStr) \<Rightarrow>
               (case NewVersion versionStr of
                  None \<Rightarrow> Some (Inl (InvalidSemanticVersion versionStr), s)
                | Some currentVer \<Rightarrow>
                    (let info = \<lparr>Repository = repo, Tag = tag, Prefix = prefix,
                                 CurrentVersion = currentVer, LatestTag = [],
                                 LatestVersion = None, HasUpdate = False\<rparr>
                     in (case findLatestVersion dockerClient repo prefix s of
                           None \<Rightarrow> None
                         | Some (Inl err, s') \<Rightarrow> Some (Inl (FailedToFindLatestVersion err), s')
                         | Some (Inr None, s') \<Rightarrow> Some (Inr info, s')
                         | Some (Inr (Some latestVersion), s') \<Rightarrow>
                             Some (Inr (info\<lparr>LatestTag := FullTag latestVersion,
                                             LatestVersion := Some (Version latestVersion),
                                             HasUpdate := GreaterThan (Version latestVersion) currentVer\<rparr>),
                                   s'))))))"

section \<open>Branch names\<close>

text \<open>
  The clock is a parameter: \<open>now\<close> is what \<^verbatim>\<open>time.Now()\<close> returns.
  \<open>Format\<close> is \<^verbatim>\<open>Time.Format\<close> at the one layout the program uses,
  \<^verbatim>\<open>"20060102-150405"\<close>: year, month, day, a hyphen, hour, minute and second, each
  padded with zeros to its width.  \<open>checkBranchName\<close> is the branch name as the loop of
  \<^verbatim>\<open>createMergeRequestsForUpdates\<close> (command \<^verbatim>\<open>check\<close>) computes it in line;
  \<^verbatim>\<open>generateBranchName\<close> is the function of command \<^verbatim>\<open>scan\<close>.
\<close>

record Time =
  Year :: nat
  Month :: nat
  Day :: nat
  Hour :: nat
  Minute :: nat
  Second :: nat
  Nanosecond :: nat

definition pad :: "nat \<Rightarrow> nat \<Rightarrow> string" where
  "pad width n = replicate (width - length (formatNat n)) (CHR ''0'') @ formatNat n"

definition Format :: "Time \<Rightarrow> string" where
  "Format t =
     pad 4 (Year t) @ pad 2 (Month t) @ pad 2 (Day t) @ ''-'' @
     pad 2 (Hour t) @ pad 2 (Minute t) @ pad 2 (Second t)"

definition sanitizeBranchName :: "string \<Rightarrow> string" where
  "sanitizeBranchName name =
     (let name = ReplaceAll name ''/'' ''-'';
          name = ReplaceAll name '':'' ''-'';
          name = ReplaceAll name ''.'' ''-''
      in name)"

definition generateBranchName :: "Time \<Rightarrow> string \<Rightarrow> string" where
  "generateBranchName now serviceName =
     (let timestamp = Format now;
          sanitizedName = sanitizeBranchName serviceName
      in ''img-upgr/'' @ sanitizedName @ ''-'' @ timestamp)"

definition checkBranchName :: "Time \<Rightarrow> string \<Rightarrow> string" where
  "checkBranchName now serviceName =
     (let timestamp = Format now;
          serviceSanitized = ReplaceAll serviceName ''/'' ''-''
      in ''img-upgr/'' @ serviceSanitized @ ''-'' @ timestamp)"

section \<open>Chains of registry pages\<close>

text \<open>
  \<open>follow c url s pages\<close> describes a registry from the outside: asked for \<open>url\<close> in
  state \<open>s\<close> it answers with status 200 and a body that decodes to the first page, asked
  for the \<^verbatim>\<open>next\<close> pointer of that page it answers with the second page, and so on
  through \<open>pages\<close>.  The result is the \<^verbatim>\<open>next\<close> pointer of the last page and the state
  after these requests; the chain is complete when that pointer is empty.
  \<open>tagNames\<close> is the concatenation of the tag names of the pages, in page order and,
  within a page, in the order of the response.
\<close>

fun follow :: "'s Client \<Rightarrow> string \<Rightarrow> 's \<Rightarrow> DockerHubResponse list \<Rightarrow> (string \<times> 's) option" where
  "follow c url s [] = Some (url, s)"
| "follow c url s (page # pages) =
     (if url \<noteq> [] \<and> fst (httpClient c url s) = Response StatusOK (Decoded page)
      then follow c (Next page) (snd (httpClient c url s)) pages
      else None)"

definition tagNames :: "DockerHubResponse list \<Rightarrow> string list" where
  "tagNames pages = concat (map (\<lambda>page. map TagName (Results page)) pages)"

text \<open>
  Three registries for concrete runs; their state counts the requests received.  The
  first serves three pages of two tags each (with a repeated name and out of
  alphabetical order), the second answers every request with 204 No Content, the third
  serves one page and then answers 503.
\<close>

definition examplePages :: "DockerHubResponse list" where
  "examplePages =
     [\<lparr>Results = [\<lparr>TagName = ''b''\<rparr>, \<lparr>TagName = ''a''\<rparr>], Next = ''https://hub/p2'', Count = 6\<rparr>,
      \<lparr>Results = [\<lparr>TagName = ''c''\<rparr>, \<lparr>TagName = ''a''\<rparr>], Next = ''https://hub/p3'', Count = 6\<rparr>,
      \<lparr>Results = [\<lparr>TagName = ''e''\<rparr>, \<lparr>TagName = ''d''\<rparr>], Next = [], Count = 6\<rparr>]"

definition exampleRegistry :: "nat Client" where
  "exampleRegistry =
     \<lparr>httpClient = (\<lambda>url n.
        (if url = ''https://hub/library/nginx/tags?page_size=100'' then Response 200 (Decoded (examplePages ! 0))
         else if url = ''https://hub/p2'' then Response 200 (Decoded (examplePages ! 1))
         else if url = ''https://hub/p3'' then Response 200 (Decoded (examplePages ! 2))
         else Response 404 Undecodable, Suc n)),
      pageSize = 100, baseURL = ''https://hub''\<rparr>"

definition noContentRegistry :: "unit Client" where
  "noContentRegistry =
     \<lparr>httpClient = (\<lambda>url u. (Response 204 (Decoded \<lparr>Results = [], Next = [], Count = 0\<rparr>), u)),
      pageSize = 100, baseURL = ''https://hub''\<rparr>"

definition failingRegistry :: "nat Client" where
  "failingRegistry =
     \<lparr>httpClient = (\<lambda>url n.
        (if url = ''https://hub/library/nginx/tags?page_size=100'' then Response 200 (Decoded (examplePages ! 0))
         else Response 503 Undecodable, Suc n)),
      pageSize = 100, baseURL = ''https://hub''\<rparr>"

section \<open>The order of versions\<close>

text \<open>
  For the proofs about \<^verbatim>\<open>Compare\<close>.  The parser only lets through pre-release
  identifiers that are not empty and, when numeric, carry no leading zero
  (\<open>validPart\<close>, \<open>validVersion\<close>).  On such versions \<^verbatim>\<open>Compare\<close> is the
  lexicographic order of the key below: the three numbers, then a flag that puts a version
  without pre-release above the ones with one, then the identifiers, a numeric one (that
  fits 64 bits) below every other and these in the order of their bytes.
\<close>

definition validPart :: "string \<Rightarrow> bool" where
  "validPart p = (p \<noteq> [] \<and> (if list_all isDigit p then noLeadingZero p else True))"

definition validVersion :: "Version \<Rightarrow> bool" where
  "validVersion v = (if pre v = [] then True else list_all validPart (Split (pre v) (CHR ''.'')))"

definition partKey :: "string \<Rightarrow> nat list" where
  "partKey p = (case ParseUint p of Some n \<Rightarrow> [0, n] | None \<Rightarrow> 1 # map of_char p)"

definition versionKey :: "Version \<Rightarrow> nat list list" where
  "versionKey v =
     [[major v], [minor v], [patch v], [if pre v = [] then 1 else 0]] @
     (if pre v = [] then [] else map partKey (Split (pre v) (CHR ''.'')))"

text \<open>
  A registry with a single page, for the scenario of an image \<^verbatim>\<open>nginx:apache-2.34.0\<close>
  whose repository has the tags \<^verbatim>\<open>apache-2.34.0\<close>, \<^verbatim>\<open>apache-2.35.0\<close> and
  \<^verbatim>\<open>apache-rc1\<close>.
\<close>

definition scenarioRegistry :: "nat Client" where
  "scenarioRegistry =
     \<lparr>httpClient = (\<lambda>url n.
        (Response 200 (Decoded \<lparr>Results = [\<lparr>TagName = ''apache-2.34.0''\<rparr>, \<lparr>TagName = ''apache-2.35.0''\<rparr>,
                                           \<lparr>TagName = ''apache-rc1''\<rparr>],
                                 Next = [], Count = 3\<rparr>), Suc n)),
      pageSize = 100, baseURL = ''https://hub''\<rparr>"

section \<open>The merge-request workflows\<close>

text \<open>
  \<^verbatim>\<open>UpdatedImage\<close> (command \<^verbatim>\<open>scan\<close>) and \<^verbatim>\<open>UpdateInfo\<close> (command \<^verbatim>\<open>check\<close>) are
  structs with the same seven string fields; one record stands for both.  The field
  \<^verbatim>\<open>Repository\<close> is \<open>UpdateRepository\<close> here (\<open>Repository\<close> is a field of
  \<^verbatim>\<open>ImageInfo\<close> already).
\<close>

record UpdateInfo =
  FilePath :: string
  ServiceName :: string
  OldImage :: string
  NewImage :: string
  UpdateRepository :: string
  OldTag :: string
  NewTag :: string

type_synonym UpdatedImage = UpdateInfo

text \<open>
  The log.  An entry keeps the level, the format and the arguments of one call of
  \<^verbatim>\<open>logger.Info\<close> (\<^verbatim>\<open>PrintInfo\<close> is that call too) or \<^verbatim>\<open>logger.Error\<close>, so that what a
  message is made of stays visible; an error argument is its text.  The calls made by the
  workflow functions themselves are recorded; what the helpers of \<^verbatim>\<open>pkg/gitlab\<close> log
  while they run (progress, at the levels debug, info and warn) belongs to the world.
\<close>

datatype level = INFO | ERROR

datatype log_entry = Log level string "string list"

text \<open>
  The helpers of \<^verbatim>\<open>pkg/gitlab\<close> (they check that the repository is cloned, run git and
  call the GitLab API), the file system (\<^verbatim>\<open>os.ReadFile\<close>, \<^verbatim>\<open>os.WriteFile\<close>), the clock and
  the context of the run are parameters: each operation takes the state \<open>'w\<close> of the world
  and returns its outcome and the next state.  An error is its text: \<open>Inl err\<close> where the
  operation also returns a value, \<open>Some err\<close> where it returns the error alone.
  \<open>GetRelativePath\<close> (the method of \<^verbatim>\<open>Config\<close>, built on \<^verbatim>\<open>filepath.Rel\<close>) and \<open>Base\<close>
  (\<^verbatim>\<open>filepath.Base\<close>) compute on paths, \<open>Done\<close> tells whether the context is cancelled,
  \<open>Now\<close> is \<^verbatim>\<open>time.Now()\<close> and \<open>NowRFC3339\<close> is the clock printed in the layout
  \<^verbatim>\<open>time.RFC3339\<close>.
\<close>

record 'w Gateway =
  Now :: "'w \<Rightarrow> Time"
  NowRFC3339 :: "'w \<Rightarrow> string"
  Done :: "'w \<Rightarrow> bool"
  GetDefaultBranch :: "'w \<Rightarrow> (string + string) \<times> 'w"
  CreateBranchInRepo :: "string \<Rightarrow> string \<Rightarrow> 'w \<Rightarrow> string option \<times> 'w"
  ReadFile :: "string \<Rightarrow> 'w \<Rightarrow> (string + string) \<times> 'w"
  WriteFile :: "string \<Rightarrow> string \<Rightarrow> 'w \<Rightarrow> string option \<times> 'w"
  CommitAndPushChanges :: "string \<Rightarrow> 'w \<Rightarrow> string option \<times> 'w"
  GetCurrentBranch :: "'w \<Rightarrow> (string + string) \<times> 'w"
  NewClient :: "'w \<Rightarrow> string option \<times> 'w"
  CreateMergeRequest :: "string \<Rightarrow> string \<Rightarrow> string \<Rightarrow> string \<Rightarrow> 'w \<Rightarrow> string option \<times> 'w"
  GetRelativePath :: "string \<Rightarrow> string"
  Base :: "string \<Rightarrow> string"

definition backtick :: string where "backtick = [CHR 0x60]"

text \<open>The arrow U+2192 of the messages, in UTF-8.\<close>

definition arrow :: string where "arrow = [CHR 0xE2, CHR 0x86, CHR 0x92]"

definition mergeRequestTitle :: "UpdateInfo \<Rightarrow> string" where
  "mergeRequestTitle update =
     ''Update '' @ ServiceName update @ '' from '' @ OldTag update @ '' to '' @ NewTag update"

definition commitMessage :: "'w Gateway \<Rightarrow> UpdateInfo \<Rightarrow> string" where
  "commitMessage g update =
     ''Update Docker image for '' @ ServiceName update @ '' in '' @ Base g (FilePath update)"

subsection \<open>Command scan\<close>

definition updateFileContent :: "'w Gateway \<Rightarrow> UpdateInfo \<Rightarrow> 'w \<Rightarrow> string option \<times> 'w" where
  "updateFileContent g update w =
     (case ReadFile g (FilePath update) w of
        (Inl err, w1) \<Rightarrow> (Some (''failed to read file: '' @ err), w1)
      | (Inr content, w1) \<Rightarrow>
     (let newContent = ReplaceAll content (OldImage update) (NewImage update) in
     (case WriteFile g (FilePath update) newContent w1 of
        (Some err, w2) \<Rightarrow> (Some (''failed to write file: '' @ err), w2)
      | (None, w2) \<Rightarrow> (None, w2))))"

definition buildMergeRequestDescription :: "'w Gateway \<Rightarrow> UpdateInfo \<Rightarrow> string" where
  "buildMergeRequestDescription g update =
     ''Automated update of Docker image by img-upgr'' @ [newline, newline] @
     ''Service: '' @ backtick @ ServiceName update @ backtick @ [newline] @
     ''File: '' @ backtick @ Base g (FilePath update) @ backtick @ [newline] @
     ''Update: '' @ backtick @ OldTag update @ backtick @ '' '' @ arrow @ '' '' @
       backtick @ NewTag update @ backtick @ [newline]"

definition submitMergeRequest ::
  "Config \<Rightarrow> 'w Gateway \<Rightarrow> UpdateInfo \<Rightarrow> 'w \<times> log_entry list \<Rightarrow> string option \<times> 'w \<times> log_entry list" where
  "submitMergeRequest cfg g update st =
     (case st of (w, logged) \<Rightarrow>
        (case GetCurrentBranch g w of
           (Inl err, w1) \<Rightarrow> (Some (''failed to get current branch: '' @ err), w1, logged)
         | (Inr currentBranch, w1) \<Rightarrow>
        (let title = mergeRequestTitle update;
             description = buildMergeRequestDescription g update;
             logged1 = logged @ [Log INFO ''Creating merge request for %s'' [ServiceName update]] in
        (if \<not> GitLabClient cfg then (Some ''invalid GitLab client type'', w1, logged1)
         else
        (case CreateMergeRequest g currentBranch (TargetBranch cfg) title description w1 of
           (Some err, w2) \<Rightarrow> (Some (''failed to create merge request: '' @ err), w2, logged1)
         | (None, w2) \<Rightarrow> (None, w2, logged1))))))"

definition createMergeRequestForUpdate ::
  "Config \<Rightarrow> 'w Gateway \<Rightarrow> UpdateInfo \<Rightarrow> 'w \<times> log_entry list \<Rightarrow> string option \<times> 'w \<times> log_entry list" where
  "createMergeRequestForUpdate cfg g update st =
     (case st of (w, logged) \<Rightarrow>
        (let branchName = generateBranchName (Now g w) (ServiceName update);
             logged1 = logged @ [Log INFO ''Creating branch %s for updating %s''
                                   [branchName, ServiceName update]] in
        (case CreateBranchInRepo g branchName (TargetBranch cfg) w of
           (Some err, w1) \<Rightarrow> (Some (''failed to create branch: '' @ err), w1, logged1)
         | (None, w1) \<Rightarrow>
        (case updateFileContent g update w1 of
           (Some err, w2) \<Rightarrow> (Some (''failed to update file content: '' @ err), w2, logged1)
         | (None, w2) \<Rightarrow>
        (let relPath = GetRelativePath g (FilePath update);
             logged2 = logged1 @ [Log INFO ''Committing changes to %s'' [relPath]];
             commitMsg = commitMessage g update in
        (case CommitAndPushChanges g commitMsg w2 of
           (Some err, w3) \<Rightarrow> (Some (''failed to commit changes: '' @ err), w3, logged2)
         | (None, w3) \<Rightarrow>
        (case submitMergeRequest cfg g update (w3, logged2) of
           (Some err, w4, logged3) \<Rightarrow> (Some (''failed to create merge request: '' @ err), w4, logged3)
         | (None, w4, logged3) \<Rightarrow> (None, w4, logged3))))))))"

text \<open>The loop of \<^verbatim>\<open>createMergeRequests\<close> over the updates, and the function itself.\<close>

fun createMergeRequests_each ::
  "Config \<Rightarrow> 'w Gateway \<Rightarrow> UpdateInfo list \<Rightarrow> 'w \<times> log_entry list \<Rightarrow> 'w \<times> log_entry list" where
  "createMergeRequests_each cfg g [] st = st"
| "createMergeRequests_each cfg g (update # updates) st =
     (case createMergeRequestForUpdate cfg g update st of
        (Some err, w, logged) \<Rightarrow>
          createMergeRequests_each cfg g updates
            (w, logged @ [Log ERROR ''Failed to create merge request for %s: %v'' [ServiceName update, err]])
      | (None, w, logged) \<Rightarrow>
          createMergeRequests_each cfg g updates
            (w, logged @ [Log INFO ''Created merge request successfully for %s'' [ServiceName update]]))"

definition createMergeRequests ::
  "Config \<Rightarrow> 'w Gateway \<Rightarrow> UpdateInfo list \<Rightarrow> 'w \<times> log_entry list \<Rightarrow> 'w \<times> log_entry list" where
  "createMergeRequests cfg g updates st =
     (case st of (w, logged) \<Rightarrow>
        if \<not> GitLabClient cfg then (w, logged @ [Log ERROR ''GitLab client not initialized'' []])
        else if \<not> ClonedRepo cfg then (w, logged @ [Log ERROR ''Repository not cloned'' []])
        else createMergeRequests_each cfg g updates (w, logged))"

subsection \<open>Command check\<close>

definition formatMergeRequestDescription :: "'w Gateway \<Rightarrow> UpdateInfo \<Rightarrow> 'w \<Rightarrow> string" where
  "formatMergeRequestDescription g update w =
     ''Automated update of Docker image by img-upgr'' @ [newline, newline] @
     ''Service: '' @ backtick @ ServiceName update @ backtick @ [newline] @
     ''File: '' @ backtick @ Base g (FilePath update) @ backtick @ [newline] @
     ''Update: '' @ backtick @ OldTag update @ backtick @ '' '' @ arrow @ '' '' @
       backtick @ NewTag update @ backtick @ [newline] @
     ''Repository: '' @ backtick @ UpdateRepository update @ backtick @ [newline] @
     [newline] @ ''Generated: '' @ NowRFC3339 g w"

text \<open>
  One pass of the loop of \<^verbatim>\<open>createMergeRequestsForUpdates\<close>, after the check of the
  context: every \<^verbatim>\<open>continue\<close> of the source is a branch that ends the pass.
\<close>

definition createMergeRequestsForUpdates_pass ::
  "'w Gateway \<Rightarrow> UpdateInfo \<Rightarrow> 'w \<times> log_entry list \<Rightarrow> 'w \<times> log_entry list" where
  "createMergeRequestsForUpdates_pass g update st =
     (case st of (w, logged) \<Rightarrow>
        (let branchName = checkBranchName (Now g w) (ServiceName update) in
        (case GetDefaultBranch g w of
           (Inl err, w1) \<Rightarrow> (w1, logged @ [Log ERROR ''Error getting default branch: %v'' [err]])
         | (Inr defaultBranch, w1) \<Rightarrow>
        (let logged1 = logged @ [Log INFO ''Creating branch %s for updating %s from default branch %s''
                                   [branchName, ServiceName update, defaultBranch]] in
        (case CreateBranchInRepo g branchName defaultBranch w1 of
           (Some err, w2) \<Rightarrow> (w2, logged1 @ [Log ERROR ''Error creating branch: %v'' [err]])
         | (None, w2) \<Rightarrow>
        (let filePath = FilePath update in
        (case ReadFile g filePath w2 of
           (Inl err, w3) \<Rightarrow> (w3, logged1 @ [Log ERROR ''Error reading file %s: %v'' [filePath, err]])
         | (Inr content, w3) \<Rightarrow>
        (let logged2 = logged1 @ [Log INFO (''Updating %s: %s '' @ arrow @ '' %s'')
                                    [ServiceName update, OldImage update, NewImage update]];
             newContent = ReplaceAll content (OldImage update) (NewImage update) in
        (case WriteFile g filePath newContent w3 of
           (Some err, w4) \<Rightarrow> (w4, logged2 @ [Log ERROR ''Error writing file %s: %v'' [filePath, err]])
         | (None, w4) \<Rightarrow>
        (let relPath = GetRelativePath g filePath;
             commitMsg = commitMessage g update;
             logged3 = logged2 @ [Log INFO ''Committing changes to %s'' [relPath]] in
        (case CommitAndPushChanges g commitMsg w4 of
           (Some err, w5) \<Rightarrow> (w5, logged3 @ [Log ERROR ''Error committing changes: %v'' [err]])
         | (None, w5) \<Rightarrow>
        (case GetCurrentBranch g w5 of
           (Inl err, w6) \<Rightarrow> (w6, logged3 @ [Log ERROR ''Error getting current branch: %v'' [err]])
         | (Inr currentBranch, w6) \<Rightarrow>
        (case GetDefaultBranch g w6 of
           (Inl err, w7) \<Rightarrow> (w7, logged3 @ [Log ERROR ''Error getting default branch: %v'' [err]])
         | (Inr defaultBranch, w7) \<Rightarrow>
        (let title = mergeRequestTitle update;
             description = formatMergeRequestDescription g update w7;
             logged4 = logged3 @ [Log INFO ''Creating merge request for %s targeting %s''
                                    [ServiceName update, defaultBranch]] in
        (case NewClient g w7 of
           (Some err, w8) \<Rightarrow> (w8, logged4 @ [Log ERROR ''Error creating GitLab client: %v'' [err]])
         | (None, w8) \<Rightarrow>
        (case CreateMergeRequest g currentBranch defaultBranch title description w8 of
           (Some err, w9) \<Rightarrow> (w9, logged4 @ [Log ERROR ''Error creating merge request: %v'' [err]])
         | (None, w9) \<Rightarrow>
           (w9, logged4 @ [Log INFO ''Created merge request successfully for %s'' [ServiceName update]])
        ))))))))))))))))"

text \<open>
  The loop: the context is looked at before each update, and a cancelled context ends the
  run with its error (\<^verbatim>\<open>ctx.Err()\<close>); otherwise the function returns nil.
\<close>

datatype run_error = ContextError

fun createMergeRequestsForUpdates ::
  "'w Gateway \<Rightarrow> UpdateInfo list \<Rightarrow> 'w \<times> log_entry list \<Rightarrow> run_error option \<times> 'w \<times> log_entry list" where
  "createMergeRequestsForUpdates g [] st = (None, st)"
| "createMergeRequestsForUpdates g (update # updates) st =
     (if Done g (fst st) then (Some ContextError, st)
      else createMergeRequestsForUpdates g updates (createMergeRequestsForUpdates_pass g update st))"

subsection \<open>A batch of two updates\<close>

text \<open>
  A world for a run over two updates of one compose file, for the services \<^verbatim>\<open>db\<close> and
  \<^verbatim>\<open>cache\<close>.  It keeps the branch that is checked out, the commit messages that reached
  the remote and the titles of the merge requests that were created.  Every operation
  succeeds but the push for \<^verbatim>\<open>db\<close>: there \<^verbatim>\<open>CommitAndPushChanges\<close> returns the error
  it builds when \<^verbatim>\<open>git push origin HEAD\<close> exits with status 1 and prints nothing.
\<close>

record World =
  branch :: string
  pushed :: "string list"
  proposals :: "string list"

definition pushError :: string where
  "pushError = ''failed to push changes: git push origin HEAD failed: exit status 1''"

definition batchGateway :: "World Gateway" where
  "batchGateway =
     \<lparr>Now = (\<lambda>w. \<lparr>Year = 2025, Month = 1, Day = 2, Hour = 3, Minute = 4, Second = 5, Nanosecond = 0\<rparr>),
      NowRFC3339 = (\<lambda>w. ''2025-01-02T03:04:05Z''),
      Done = (\<lambda>w. False),
      GetDefaultBranch = (\<lambda>w. (Inr ''main'', w)),
      CreateBranchInRepo = (\<lambda>branchName baseBranch w. (None, w\<lparr>branch := branchName\<rparr>)),
      ReadFile = (\<lambda>path w. (Inr ''image: postgres:15.1.0 image: redis:7.0.0'', w)),
      WriteFile = (\<lambda>path content w. (None, w)),
      CommitAndPushChanges = (\<lambda>message w.
        if message = ''Update Docker image for db in docker-compose.yml'' then (Some pushError, w)
        else (None, w\<lparr>pushed := pushed w @ [message]\<rparr>)),
      GetCurrentBranch = (\<lambda>w. (Inr (branch w), w)),
      NewClient = (\<lambda>w. (None, w)),
      CreateMergeRequest = (\<lambda>sourceBranch targetBranch title description w.
        (None, w\<lparr>proposals := proposals w @ [title]\<rparr>)),
      GetRelativePath = (\<lambda>path. path),
      Base = (\<lambda>path. path)\<rparr>"

definition batchUpdates :: "UpdateInfo list" where
  "batchUpdates =
     [\<lparr>FilePath = ''docker-compose.yml'', ServiceName = ''db'', OldImage = ''postgres:15.1.0'',
        NewImage = ''postgres:15.2.0'', UpdateRepository = ''postgres'', OldTag = ''15.1.0'',
        NewTag = ''15.2.0''\<rparr>,
      \<lparr>FilePath = ''docker-compose.yml'', ServiceName = ''cache'', OldImage = ''redis:7.0.0'',
        NewImage = ''redis:7.0.1'', UpdateRepository = ''redis'', OldTag = ''7.0.0'',
        NewTag = ''7.0.1''\<rparr>]"

definition batchWorld :: World where
  "batchWorld = \<lparr>branch = ''main'', pushed = [], proposals = []\<rparr>"

definition batchConfig :: Config where
  "batchConfig = New\<lparr>CreateMR := True, ClonedRepo := True, TempDir := ''/tmp/img-upgr-1'',
                     GitLabClient := True\<rparr>"

section \<open>Properties of the configuration check\<close>

lemma GetMissingVars_empty_iff:
  "GetMissingVars vars = [] \<longleftrightarrow> (\<forall>(name, val) \<in> set vars. val \<noteq> [])"
  by (induction vars rule: GetMissingVars.induct) auto

lemma Add_not_Nil: "Add e field message \<noteq> []"
  by (simp add: Add_def)

lemma GetMissingVars_requiredVars:
  "GetMissingVars (requiredVars c) = [] \<longleftrightarrow>
     GitLabUser c \<noteq> [] \<and> GitLabToken c \<noteq> [] \<and> GitLabRepo c \<noteq> [] \<and> GitLabEmail c \<noteq> []"
  by (simp add: GetMissingVars_empty_iff requiredVars_def)

text \<open>
  Claim C9.  \<^verbatim>\<open>ValidateGitLab\<close> returns no error whenever \<^verbatim>\<open>CreateMR\<close> is
  false, whatever the four GitLab settings hold (all of them may be empty).  The
  required-variable check and the repository-URL check are made only when
  \<^verbatim>\<open>CreateMR\<close> is true: then an error is returned exactly when one of the four
  settings is empty or the repository URL does not validate.
\<close>

theorem ValidateGitLab_only_when_CreateMR:
  "(\<not> CreateMR c \<longrightarrow> ValidateGitLab parse c = None) \<and>
   (CreateMR c \<longrightarrow>
      (ValidateGitLab parse c \<noteq> None) =
        (GitLabUser c = [] \<or> GitLabToken c = [] \<or> GitLabRepo c = [] \<or> GitLabEmail c = [] \<or>
         ValidateURL parse (GitLabRepo c) \<noteq> None))"
proof (cases "CreateMR c")
  case False
  then show ?thesis
    by (simp add: ValidateGitLab_def HasErrors_def)
next
  case True
  show ?thesis
  proof (cases "ValidateURL parse (GitLabRepo c)")
    case (Some err)
    with True show ?thesis
      by (simp add: ValidateGitLab_def Let_def HasErrors_def Add_not_Nil)
  next
    case None
    with True show ?thesis
      using GetMissingVars_requiredVars [of c]
      by (auto simp: ValidateGitLab_def Let_def HasErrors_def Add_not_Nil)
  qed
qed

theorem ValidateGitLab_only_when_CreateMR_witness:
  "\<not> CreateMR New \<and> GitLabUser New = [] \<and> GitLabToken New = [] \<and> GitLabRepo New = [] \<and>
   GitLabEmail New = [] \<and> ValidateGitLab (\<lambda>u. Inl ''parse error'') New = None"
  using ValidateGitLab_only_when_CreateMR [of New "\<lambda>u. Inl ''parse error''"]
  by (simp add: New_def)

section \<open>Splitting an image reference\<close>

lemma takeWhile_neq_append: "c \<notin> set xs \<Longrightarrow> takeWhile (\<lambda>x. x \<noteq> c) (xs @ c # ys) = xs"
  by (induction xs) auto

lemma dropWhile_neq_append: "c \<notin> set xs \<Longrightarrow> dropWhile (\<lambda>x. x \<noteq> c) (xs @ c # ys) = c # ys"
  by (induction xs) auto

lemma dropWhile_neq_Cons:
  "dropWhile (\<lambda>x. x \<noteq> c) s = y # ys \<Longrightarrow> y = c \<and> c \<in> set s \<and> s = takeWhile (\<lambda>x. x \<noteq> c) s @ c # ys"
  by (induction s) (auto split: if_splits)

lemma notin_takeWhile_neq: "c \<notin> set (takeWhile (\<lambda>x. x \<noteq> c) s)"
  by (induction s) auto

lemma ImageTagPattern_Some_iff:
  "ImageTagPattern img = Some (repo, tag) \<longleftrightarrow>
     img = repo @ CHR '':'' # tag \<and> repo \<noteq> [] \<and> CHR '':'' \<notin> set repo \<and> tag \<noteq> [] \<and> newline \<notin> set tag"
proof
  assume m: "ImageTagPattern img = Some (repo, tag)"
  then obtain colon where d: "dropWhile (\<lambda>c. c \<noteq> CHR '':'') img = colon # tag"
    and r: "repo = takeWhile (\<lambda>c. c \<noteq> CHR '':'') img"
    and ne: "repo \<noteq> []" "tag \<noteq> []" "newline \<notin> set tag"
    by (auto simp: ImageTagPattern_def Let_def split: list.splits if_splits)
  from dropWhile_neq_Cons [OF d] r have "img = repo @ CHR '':'' # tag"
    by simp
  moreover have "CHR '':'' \<notin> set repo"
    unfolding r by (rule notin_takeWhile_neq)
  ultimately show "img = repo @ CHR '':'' # tag \<and> repo \<noteq> [] \<and> CHR '':'' \<notin> set repo \<and> tag \<noteq> [] \<and> newline \<notin> set tag"
    using ne by simp
next
  assume a: "img = repo @ CHR '':'' # tag \<and> repo \<noteq> [] \<and> CHR '':'' \<notin> set repo \<and> tag \<noteq> [] \<and> newline \<notin> set tag"
  then show "ImageTagPattern img = Some (repo, tag)"
    by (simp add: ImageTagPattern_def takeWhile_neq_append dropWhile_neq_append)
qed

lemma ImageTagPattern_None_iff:
  "ImageTagPattern img = None \<longleftrightarrow>
     (takeWhile (\<lambda>c. c \<noteq> CHR '':'') img = [] \<or> tl (dropWhile (\<lambda>c. c \<noteq> CHR '':'') img) = [] \<or>
      newline \<in> set (tl (dropWhile (\<lambda>c. c \<noteq> CHR '':'') img)) \<or> CHR '':'' \<notin> set img)"
  by (auto simp: ImageTagPattern_def Let_def dropWhile_eq_Nil_conv split: list.splits
      dest: dropWhile_neq_Cons)

text \<open>
  Claim C6, as amended.  \<^verbatim>\<open>parseImageString\<close> splits at the first colon: it returns
  \<open>(repo, tag)\<close> exactly when the image is \<open>repo\<close>, a colon and \<open>tag\<close>, where \<open>repo\<close>
  is not empty and holds no colon (so it is the text before the first colon) and \<open>tag\<close>,
  everything after that colon, is not empty and holds no line feed.  It returns the
  no-tag-found error exactly in the remaining cases: nothing before the first colon,
  nothing after it, a line feed after it, or no colon at all.
\<close>

theorem parseImageString_first_colon:
  "(parseImageString img = Inr (repo, tag)) =
     (img = repo @ CHR '':'' # tag \<and> repo \<noteq> [] \<and> CHR '':'' \<notin> set repo \<and> tag \<noteq> [] \<and> newline \<notin> set tag) \<and>
   (parseImageString img = Inl err) =
     (err = NoTagFound img \<and>
      (takeWhile (\<lambda>c. c \<noteq> CHR '':'') img = [] \<or> tl (dropWhile (\<lambda>c. c \<noteq> CHR '':'') img) = [] \<or>
       newline \<in> set (tl (dropWhile (\<lambda>c. c \<noteq> CHR '':'') img)) \<or> CHR '':'' \<notin> set img))"
proof -
  have 1: "(parseImageString img = Inr (repo, tag)) = (ImageTagPattern img = Some (repo, tag))"
    by (auto simp: parseImageString_def split: option.splits)
  have 2: "(parseImageString img = Inl err) = (err = NoTagFound img \<and> ImageTagPattern img = None)"
    by (auto simp: parseImageString_def split: option.splits)
  show ?thesis
    unfolding 1 2 ImageTagPattern_Some_iff ImageTagPattern_None_iff by simp
qed

text \<open>
  The claim as stated lists three reasons for the error (no colon, nothing before the
  first colon, nothing after it).  The image \<^verbatim>\<open>"a:b\n"\<close> has none of them and is
  rejected all the same, since \<^verbatim>\<open>.\<close> does not match the line feed.
\<close>

theorem parseImageString_newline_counterexample:
  "\<not> (isl (parseImageString (''a:b'' @ [newline])) =
        (takeWhile (\<lambda>c. c \<noteq> CHR '':'') (''a:b'' @ [newline]) = [] \<or>
         tl (dropWhile (\<lambda>c. c \<noteq> CHR '':'') (''a:b'' @ [newline])) = [] \<or>
         CHR '':'' \<notin> set (''a:b'' @ [newline])))"
  by (simp add: parseImageString_def ImageTagPattern_def newline_def)

text \<open>A registry host with a port is cut at the colon of the port.\<close>

lemma parseImageString_host_port:
  "parseImageString ''host:5000/app:tag'' = Inr (''host'', ''5000/app:tag'')"
  by (simp add: parseImageString_def ImageTagPattern_def newline_def)

section \<open>Candidate tags\<close>

lemma HasPrefix_iff: "HasPrefix s p \<longleftrightarrow> (\<exists>rest. s = p @ rest)"
proof
  assume "HasPrefix s p"
  then have "s = p @ drop (length p) s"
    by (metis HasPrefix_def append_take_drop_id)
  then show "\<exists>rest. s = p @ rest" ..
next
  assume "\<exists>rest. s = p @ rest"
  then show "HasPrefix s p" by (auto simp: HasPrefix_def)
qed

lemma TrimPrefix_append [simp]: "TrimPrefix (p @ rest) p = rest"
  by (simp add: TrimPrefix_def HasPrefix_def)

lemma HasPrefix_append [simp]: "HasPrefix (p @ rest) p"
  by (simp add: HasPrefix_def)

lemma findMatchingVersions_filter:
  "findMatchingVersions tags prefix =
     map (\<lambda>tag. \<lparr>FullTag = tag, Version = the (NewVersion (TrimPrefix tag prefix))\<rparr>)
       (filter (\<lambda>tag. HasPrefix tag prefix \<and> NewVersion (TrimPrefix tag prefix) \<noteq> None) tags)"
  by (induction tags) (auto split: option.splits)

text \<open>
  Claim C1, as amended.  \<^verbatim>\<open>findMatchingVersions\<close> selects a tag exactly when the tag
  is the prefix followed by a remainder that \<^verbatim>\<open>semver.NewVersion\<close> accepts.  That parser
  is lenient: besides plain triplets it accepts a pre-release suffix, missing minor or
  patch numbers and a leading \<^verbatim>\<open>v\<close>.
\<close>

theorem findMatchingVersions_candidates:
  "(tag \<in> FullTag ` set (findMatchingVersions tags prefix)) =
     (tag \<in> set tags \<and> (\<exists>rest. tag = prefix @ rest \<and> NewVersion rest \<noteq> None))"
proof -
  have "FullTag ` set (findMatchingVersions tags prefix) =
          {t \<in> set tags. HasPrefix t prefix \<and> NewVersion (TrimPrefix t prefix) \<noteq> None}"
    unfolding findMatchingVersions_filter by (auto simp: image_iff)
  then show ?thesis
    by (auto simp: HasPrefix_iff)
qed

text \<open>Evaluating the parser on literals.\<close>

lemmas NewVersion_eval =
  NewVersion_def versionRegex_def dotNumber_def isDigit_def ParseUint_def digitsValue_def digitValue_def
  TrimPrefix_def HasPrefix_def identifiers_def containsOnly_def allowed_def num_def
  validatePrerelease_def validateMetadata_def

lemma NewVersion_prerelease: "NewVersion ''2.0.0-rc1'' =
  Some \<lparr>major = 2, minor = 0, patch = 0, pre = ''rc1'', metadata = [], original = ''2.0.0-rc1''\<rparr>"
  by (simp add: NewVersion_eval)

lemma NewVersion_two_components: "NewVersion ''1.2'' =
  Some \<lparr>major = 1, minor = 2, patch = 0, pre = [], metadata = [], original = ''1.2''\<rparr>"
  by (simp add: NewVersion_eval)

text \<open>
  The claim as stated takes a remainder with a pre-release suffix never to be a
  candidate.  \<^verbatim>\<open>"2.0.0-rc1"\<close> is no plain triplet, and the tag \<^verbatim>\<open>"foo-2.0.0-rc1"\<close> is
  selected for the prefix \<^verbatim>\<open>"foo-"\<close>.
\<close>

theorem findMatchingVersions_prerelease_counterexample:
  "\<not> ((''foo-2.0.0-rc1'' \<in> FullTag ` set (findMatchingVersions [''foo-2.0.0-rc1''] ''foo-'')) =
        (HasPrefix ''foo-2.0.0-rc1'' ''foo-'' \<and> triplet (TrimPrefix ''foo-2.0.0-rc1'' ''foo-'')))"
  by (simp add: NewVersion_eval triplet_def digits_def)

text \<open>
  Tags with a pre-release suffix or with two components are selected; a tag with another
  prefix, or whose remainder is no version at all, is not.
\<close>

lemma findMatchingVersions_examples:
  "map FullTag (findMatchingVersions [''foo-2.0.0'', ''foo-2.0.0-rc1'', ''foo-1.2'', ''bar-3.0.0'', ''foo-rc1''] ''foo-'') =
     [''foo-2.0.0'', ''foo-2.0.0-rc1'', ''foo-1.2'']"
  by (simp add: NewVersion_eval)

section \<open>Segments of a string\<close>

lemma Split_not_Nil: "Split s sep \<noteq> []"
  by (induction s) (auto split: list.splits)

lemma Split_no_sep: "sep \<notin> set s \<Longrightarrow> Split s sep = [s]"
  by (induction s) auto

lemma Split_append_sep: "sep \<notin> set a \<Longrightarrow> Split (a @ sep # s) sep = a # Split s sep"
proof (induction a)
  case Nil
  show ?case by simp
next
  case (Cons x a)
  from Cons.prems have "x \<noteq> sep" "sep \<notin> set a" by auto
  with Cons.IH show ?case by simp
qed

lemma Join_Split: "Join (Split s sep) [sep] = s"
proof (induction s)
  case Nil
  show ?case by simp
next
  case (Cons c s)
  obtain seg segs where sp: "Split s sep = seg # segs"
    using Split_not_Nil [of s sep] by (cases "Split s sep") auto
  with Cons show ?case
    by (cases segs) auto
qed

lemma Split_segments: "seg \<in> set (Split s sep) \<Longrightarrow> sep \<notin> set seg"
proof (induction s arbitrary: seg)
  case Nil
  then show ?case by simp
next
  case (Cons c s)
  then show ?case
    by (cases "Split s sep") (auto simp: Split_not_Nil split: if_splits)
qed

lemma isDigit_dot: "\<not> isDigit (CHR ''.'')"
  by (simp add: isDigit_def)

lemma digits_no_dot: "digits a \<Longrightarrow> CHR ''.'' \<notin> set a"
  unfolding digits_def list_all_iff using isDigit_dot by blast

lemma triplet_iff:
  "triplet s \<longleftrightarrow> (\<exists>a b c. s = a @ ''.'' @ b @ ''.'' @ c \<and> digits a \<and> digits b \<and> digits c)"
proof
  assume "triplet s"
  then obtain a b c where sp: "Split s (CHR ''.'') = [a, b, c]" and d: "digits a" "digits b" "digits c"
    by (auto simp: triplet_def split: list.splits)
  have "s = Join (Split s (CHR ''.'')) ''.''"
    by (simp add: Join_Split)
  with sp have "s = a @ ''.'' @ b @ ''.'' @ c"
    by simp
  with d show "\<exists>a b c. s = a @ ''.'' @ b @ ''.'' @ c \<and> digits a \<and> digits b \<and> digits c"
    by blast
next
  assume "\<exists>a b c. s = a @ ''.'' @ b @ ''.'' @ c \<and> digits a \<and> digits b \<and> digits c"
  then obtain a b c where s: "s = a @ ''.'' @ b @ ''.'' @ c" and d: "digits a" "digits b" "digits c"
    by blast
  have "Split s (CHR ''.'') = [a, b, c]"
    using d by (simp add: s Split_append_sep Split_no_sep digits_no_dot)
  with d show "triplet s"
    by (simp add: triplet_def)
qed

section \<open>Splitting a tag\<close>

text \<open>
  What the lazy scan of \<^verbatim>\<open>SemverTagPattern\<close> returns: the tag is cut at the first
  position from which the rest is a triplet, and no line feed comes before that position.
\<close>

lemma SemverTagPattern_from_Some:
  "SemverTagPattern_from skipped rest = Some (p, v) \<longleftrightarrow>
     (\<exists>mid. p = skipped @ mid \<and> rest = mid @ v \<and> triplet v \<and> newline \<notin> set mid \<and>
            (\<forall>k < length mid. \<not> triplet (drop k rest)))"
proof (induction rest arbitrary: skipped)
  case Nil
  then show ?case by (auto simp: triplet_def)
next
  case (Cons c rest)
  show ?case
  proof (cases "triplet (c # rest)")
    case True
    have "(\<exists>mid. p = skipped @ mid \<and> c # rest = mid @ v \<and> triplet v \<and> newline \<notin> set mid \<and>
            (\<forall>k < length mid. \<not> triplet (drop k (c # rest)))) \<longleftrightarrow> (p = skipped \<and> v = c # rest)"
    proof
      assume "\<exists>mid. p = skipped @ mid \<and> c # rest = mid @ v \<and> triplet v \<and> newline \<notin> set mid \<and>
            (\<forall>k < length mid. \<not> triplet (drop k (c # rest)))"
      then obtain mid where m: "p = skipped @ mid" "c # rest = mid @ v"
        "\<forall>k < length mid. \<not> triplet (drop k (c # rest))" by blast
      have "mid = []"
      proof (rule ccontr)
        assume "mid \<noteq> []"
        then have "0 < length mid" by simp
        with m(3) have "\<not> triplet (drop 0 (c # rest))" by blast
        with True show False by simp
      qed
      with m show "p = skipped \<and> v = c # rest" by simp
    next
      assume "p = skipped \<and> v = c # rest"
      with True show "\<exists>mid. p = skipped @ mid \<and> c # rest = mid @ v \<and> triplet v \<and> newline \<notin> set mid \<and>
            (\<forall>k < length mid. \<not> triplet (drop k (c # rest)))"
        by (intro exI [of _ "[]"]) simp
    qed
    with True show ?thesis by auto
  next
    case False
    show ?thesis
    proof (cases "c = newline")
      case True
      have "\<not> (\<exists>mid. p = skipped @ mid \<and> c # rest = mid @ v \<and> triplet v \<and> newline \<notin> set mid \<and>
            (\<forall>k < length mid. \<not> triplet (drop k (c # rest))))"
      proof
        assume "\<exists>mid. p = skipped @ mid \<and> c # rest = mid @ v \<and> triplet v \<and> newline \<notin> set mid \<and>
            (\<forall>k < length mid. \<not> triplet (drop k (c # rest)))"
        then obtain mid where m: "c # rest = mid @ v" "triplet v" "newline \<notin> set mid" by blast
        show False
        proof (cases mid)
          case Nil
          with m \<open>\<not> triplet (c # rest)\<close> show False by simp
        next
          case (Cons x xs)
          with m True show False by simp
        qed
      qed
      with True False show ?thesis by simp
    next
      case nl: False
      have "(\<exists>mid. p = (skipped @ [c]) @ mid \<and> rest = mid @ v \<and> triplet v \<and> newline \<notin> set mid \<and>
              (\<forall>k < length mid. \<not> triplet (drop k rest))) \<longleftrightarrow>
            (\<exists>mid. p = skipped @ mid \<and> c # rest = mid @ v \<and> triplet v \<and> newline \<notin> set mid \<and>
              (\<forall>k < length mid. \<not> triplet (drop k (c # rest))))"
      proof
        assume "\<exists>mid. p = (skipped @ [c]) @ mid \<and> rest = mid @ v \<and> triplet v \<and> newline \<notin> set mid \<and>
              (\<forall>k < length mid. \<not> triplet (drop k rest))"
        then obtain mid where m: "p = (skipped @ [c]) @ mid" "rest = mid @ v" "triplet v"
          "newline \<notin> set mid" "\<forall>k < length mid. \<not> triplet (drop k rest)" by blast
        have "\<forall>k < length (c # mid). \<not> triplet (drop k (c # rest))"
        proof (intro allI impI)
          fix k assume "k < length (c # mid)"
          then show "\<not> triplet (drop k (c # rest))"
            using m(5) False by (cases k) auto
        qed
        with m nl show "\<exists>mid. p = skipped @ mid \<and> c # rest = mid @ v \<and> triplet v \<and> newline \<notin> set mid \<and>
              (\<forall>k < length mid. \<not> triplet (drop k (c # rest)))"
          by (intro exI [of _ "c # mid"]) simp
      next
        assume "\<exists>mid. p = skipped @ mid \<and> c # rest = mid @ v \<and> triplet v \<and> newline \<notin> set mid \<and>
              (\<forall>k < length mid. \<not> triplet (drop k (c # rest)))"
        then obtain mid where m: "p = skipped @ mid" "c # rest = mid @ v" "triplet v"
          "newline \<notin> set mid" "\<forall>k < length mid. \<not> triplet (drop k (c # rest))" by blast
        from m(2,3) False obtain mid' where mid: "mid = c # mid'"
          by (cases mid) auto
        have "\<forall>k < length mid'. \<not> triplet (drop k rest)"
        proof (intro allI impI)
          fix k assume "k < length mid'"
          then have "Suc k < length mid" by (simp add: mid)
          with m(5) have "\<not> triplet (drop (Suc k) (c # rest))" by blast
          then show "\<not> triplet (drop k rest)" by simp
        qed
        with m mid show "\<exists>mid. p = (skipped @ [c]) @ mid \<and> rest = mid @ v \<and> triplet v \<and> newline \<notin> set mid \<and>
              (\<forall>k < length mid. \<not> triplet (drop k rest))"
          by (intro exI [of _ mid']) simp
      qed
      with Cons.IH [of "skipped @ [c]"] False nl show ?thesis by simp
    qed
  qed
qed

lemma extractVersionFromTag_Inr:
  "extractVersionFromTag tag = Inr (p, v) \<longleftrightarrow>
     tag = p @ v \<and> triplet v \<and> newline \<notin> set p \<and> (\<forall>k < length p. \<not> triplet (drop k tag))"
proof -
  have "extractVersionFromTag tag = Inr (p, v) \<longleftrightarrow> SemverTagPattern_from [] tag = Some (p, v)"
    by (auto simp: extractVersionFromTag_def SemverTagPattern_def split: option.splits)
  then show ?thesis
    by (simp add: SemverTagPattern_from_Some)
qed

section \<open>Decimal numerals\<close>

lemma isDigit_cases:
  "isDigit c \<longleftrightarrow> c = CHR ''0'' \<or> c = CHR ''1'' \<or> c = CHR ''2'' \<or> c = CHR ''3'' \<or> c = CHR ''4'' \<or>
     c = CHR ''5'' \<or> c = CHR ''6'' \<or> c = CHR ''7'' \<or> c = CHR ''8'' \<or> c = CHR ''9''"
  by (simp add: isDigit_def)

lemma less_10_cases:
  "(d :: nat) < 10 \<longleftrightarrow> d = 0 \<or> d = 1 \<or> d = 2 \<or> d = 3 \<or> d = 4 \<or> d = 5 \<or> d = 6 \<or> d = 7 \<or> d = 8 \<or> d = 9"
  by arith

lemma digitChar_digitValue: "isDigit c \<Longrightarrow> digitValue c < 10 \<and> digitChar (digitValue c) = c"
  unfolding isDigit_cases by (elim disjE) (simp_all add: digitValue_def digitChar_def)

lemma digitValue_digitChar: "d < 10 \<Longrightarrow> isDigit (digitChar d) \<and> digitValue (digitChar d) = d"
  unfolding less_10_cases by (elim disjE) (simp_all add: digitValue_def digitChar_def isDigit_def)

lemma formatNat_small: "n < 10 \<Longrightarrow> formatNat n = [digitChar n]"
  by (simp add: formatNat.simps)

lemma formatNat_step: "d < 10 \<Longrightarrow> 0 < n \<Longrightarrow> formatNat (10 * n + d) = formatNat n @ [digitChar d]"
  by (subst formatNat.simps) simp

lemma digitsValue_snoc: "digitsValue (s @ [c]) = 10 * digitsValue s + digitValue c"
  by (simp add: digitsValue_def)

lemma digitsValue_pos:
  "list_all isDigit s \<Longrightarrow> s \<noteq> [] \<Longrightarrow> hd s \<noteq> CHR ''0'' \<Longrightarrow> 0 < digitsValue s"
proof (induction s rule: rev_induct)
  case Nil
  then show ?case by simp
next
  case (snoc c s)
  show ?case
  proof (cases "s = []")
    case True
    with snoc.prems have "isDigit c" "c \<noteq> CHR ''0''" by simp_all
    then have "0 < digitValue c"
      unfolding isDigit_cases by (elim disjE) (simp_all add: digitValue_def)
    with True show ?thesis by (simp add: digitsValue_def)
  next
    case False
    with snoc have "0 < digitsValue s" by simp
    then show ?thesis by (simp add: digitsValue_snoc)
  qed
qed

lemma formatNat_digitsValue:
  "digits s \<Longrightarrow> noLeadingZero s \<Longrightarrow> formatNat (digitsValue s) = s"
proof (induction s rule: rev_induct)
  case Nil
  then show ?case by (simp add: digits_def)
next
  case (snoc c s)
  from snoc.prems have c: "isDigit c" and ds: "list_all isDigit s"
    by (simp_all add: digits_def)
  note dc = digitChar_digitValue [OF c]
  show ?case
  proof (cases "s = []")
    case True
    with dc show ?thesis
      by (simp add: digitsValue_def formatNat_small)
  next
    case False
    with snoc.prems have hd: "hd s \<noteq> CHR ''0''"
      by (auto simp: noLeadingZero_def)
    with False ds have pos: "0 < digitsValue s"
      by (simp add: digitsValue_pos)
    from False ds hd have "formatNat (digitsValue s) = s"
      using snoc.IH by (simp add: digits_def noLeadingZero_def)
    with dc pos show ?thesis
      by (simp add: digitsValue_snoc formatNat_step)
  qed
qed

lemma formatNat_Cons: "n \<ge> 10 \<Longrightarrow> formatNat n = formatNat (n div 10) @ [digitChar (n mod 10)]"
  by (subst formatNat.simps) simp

lemma digits_snoc: "digits (s @ [c]) \<longleftrightarrow> list_all isDigit s \<and> isDigit c"
  by (auto simp: digits_def)

lemma digitsValue_formatNat: "digits (formatNat n) \<and> digitsValue (formatNat n) = n"
proof (induction n rule: formatNat.induct)
  case (1 n)
  show ?case
  proof (cases "n < 10")
    case True
    then show ?thesis
      using digitValue_digitChar [of n]
      by (simp add: formatNat_small digits_def digitsValue_def)
  next
    case False
    with 1 have IH: "digits (formatNat (n div 10))" "digitsValue (formatNat (n div 10)) = n div 10"
      by simp_all
    have d: "isDigit (digitChar (n mod 10))" "digitValue (digitChar (n mod 10)) = n mod 10"
      using digitValue_digitChar [of "n mod 10"] by simp_all
    from False have f: "formatNat n = formatNat (n div 10) @ [digitChar (n mod 10)]"
      by (simp add: formatNat_Cons)
    from IH d show ?thesis
      unfolding f by (simp add: digits_snoc digitsValue_snoc digits_def)
  qed
qed

lemma noLeadingZero_formatNat: "noLeadingZero (formatNat n)"
proof (induction n rule: formatNat.induct)
  case (1 n)
  show ?case
  proof (cases "n < 10")
    case True
    then show ?thesis
      by (simp add: formatNat_small noLeadingZero_def)
  next
    case False
    let ?f = "formatNat (n div 10)"
    from False have f: "formatNat n = ?f @ [digitChar (n mod 10)]"
      by (simp add: formatNat_Cons)
    have dv: "digits ?f" "digitsValue ?f = n div 10"
      using digitsValue_formatNat [of "n div 10"] by simp_all
    from False have pos: "0 < n div 10" by simp
    from False 1 have IH: "noLeadingZero ?f" by simp
    from dv(1) obtain c cs where cs: "?f = c # cs"
      by (cases ?f) (auto simp: digits_def)
    have "c \<noteq> CHR ''0''"
    proof
      assume c: "c = CHR ''0''"
      with IH cs have "cs = []"
        by (simp add: noLeadingZero_def)
      with cs c have "digitsValue ?f = 0"
        by (simp add: digitsValue_def digitValue_def)
      with dv(2) pos show False by simp
    qed
    with cs show ?thesis
      unfolding f by (simp add: noLeadingZero_def)
  qed
qed

section \<open>Plain triplets and the round trip\<close>

text \<open>
  On three runs of digits separated by dots the library's parser reads the three numbers
  (it fails when one of them does not fit 64 bits) and leaves the pre-release and the
  metadata empty.
\<close>

lemma isDigit_v: "\<not> isDigit (CHR ''v'')"
  by (simp add: isDigit_def)

lemma takeWhile_digits: "list_all isDigit a \<Longrightarrow> takeWhile isDigit (a @ CHR ''.'' # r) = a"
  by (simp add: takeWhile_append2 list_all_iff isDigit_dot)

lemma dropWhile_digits: "list_all isDigit a \<Longrightarrow> dropWhile isDigit (a @ CHR ''.'' # r) = CHR ''.'' # r"
  by (simp add: dropWhile_append2 list_all_iff isDigit_dot)

lemma takeWhile_all_digits: "list_all isDigit a \<Longrightarrow> takeWhile isDigit a = a"
  by (simp add: list_all_iff)

lemma dropWhile_all_digits: "list_all isDigit a \<Longrightarrow> dropWhile isDigit a = []"
  by (simp add: list_all_iff)

lemma dotNumber_middle: "digits b \<Longrightarrow> dotNumber (CHR ''.'' # b @ CHR ''.'' # r) = (CHR ''.'' # b, CHR ''.'' # r)"
  by (simp add: dotNumber_def digits_def takeWhile_digits dropWhile_digits)

lemma dotNumber_last: "digits c \<Longrightarrow> dotNumber (CHR ''.'' # c) = (CHR ''.'' # c, [])"
  by (simp add: dotNumber_def digits_def takeWhile_all_digits dropWhile_all_digits)

lemma versionRegex_triplet:
  assumes "digits a" "digits b" "digits c"
  shows "versionRegex (a @ ''.'' @ b @ ''.'' @ c) = Some (a, CHR ''.'' # b, CHR ''.'' # c, [], [])"
proof -
  from assms(1) obtain x xs where a: "a = x # xs" and x: "isDigit x" and da: "list_all isDigit a"
    by (cases a) (auto simp: digits_def)
  from x have "x \<noteq> CHR ''v''" using isDigit_v by auto
  then have s0: "(case a @ ''.'' @ b @ ''.'' @ c of [] \<Rightarrow> a @ ''.'' @ b @ ''.'' @ c
           | y # r \<Rightarrow> if y = CHR ''v'' then r else a @ ''.'' @ b @ ''.'' @ c) = a @ CHR ''.'' # b @ CHR ''.'' # c"
    by (simp add: a)
  have m1: "takeWhile isDigit (a @ CHR ''.'' # b @ CHR ''.'' # c) = a"
    and s1: "dropWhile isDigit (a @ CHR ''.'' # b @ CHR ''.'' # c) = CHR ''.'' # b @ CHR ''.'' # c"
    using da by (simp_all add: takeWhile_digits dropWhile_digits)
  from assms(1) have ane: "a \<noteq> []" by (simp add: digits_def)
  show ?thesis
    unfolding versionRegex_def s0
    by (simp add: m1 s1 dotNumber_middle [OF assms(2)] dotNumber_last [OF assms(3)] ane)
qed

lemma ParseUint_digits: "digits a \<Longrightarrow> ParseUint a = (if digitsValue a < 2 ^ 64 then Some (digitsValue a) else None)"
  by (simp add: ParseUint_def digits_def)

lemma NewVersion_triplet:
  assumes "digits a" "digits b" "digits c"
  shows "NewVersion (a @ ''.'' @ b @ ''.'' @ c) =
     (if digitsValue a < 2 ^ 64 \<and> digitsValue b < 2 ^ 64 \<and> digitsValue c < 2 ^ 64
      then Some \<lparr>major = digitsValue a, minor = digitsValue b, patch = digitsValue c, pre = [],
                  metadata = [], original = a @ ''.'' @ b @ ''.'' @ c\<rparr>
      else None)"
  unfolding NewVersion_def versionRegex_triplet [OF assms]
  by (simp add: ParseUint_digits assms TrimPrefix_def HasPrefix_def)

lemma String_triplet:
  "pre v = [] \<Longrightarrow> metadata v = [] \<Longrightarrow>
   String v = formatNat (major v) @ ''.'' @ formatNat (minor v) @ ''.'' @ formatNat (patch v)"
  by (simp add: String_def)

lemma triplet_parts_unique:
  assumes "a @ ''.'' @ b @ ''.'' @ c = a' @ ''.'' @ b' @ ''.'' @ c'"
    and "digits a" "digits b" "digits c" "digits a'" "digits b'" "digits c'"
  shows "a = a' \<and> b = b' \<and> c = c'"
proof -
  have l: "Split (a @ ''.'' @ b @ ''.'' @ c) (CHR ''.'') = [a, b, c]"
    using assms(2-4) by (simp add: Split_append_sep Split_no_sep digits_no_dot)
  have r: "Split (a' @ ''.'' @ b' @ ''.'' @ c') (CHR ''.'') = [a', b', c']"
    using assms(5-7) by (simp add: Split_append_sep Split_no_sep digits_no_dot)
  from assms(1) have "Split (a @ ''.'' @ b @ ''.'' @ c) (CHR ''.'') = Split (a' @ ''.'' @ b' @ ''.'' @ c') (CHR ''.'')"
    by (rule arg_cong)
  then have "[a, b, c] = [a', b', c']"
    by (simp only: l r)
  then show ?thesis by simp
qed

text \<open>
  \<^verbatim>\<open>extractVersionFromTag\<close> cuts the tag in two, so the prefix followed by the version
  text is always the tag.  When the version text parses, the string form of the parsed
  version is the version text again exactly when none of its three numbers is written with
  a superfluous leading zero.
\<close>

lemma tag_roundtrip_iff:
  assumes "extractVersionFromTag tag = Inr (prefix, versionStr)"
    and "NewVersion versionStr = Some v"
  shows "tag = prefix @ versionStr \<and>
     ((prefix @ String v = tag) = list_all noLeadingZero (Split versionStr (CHR ''.'')))"
proof -
  from assms(1) have tag: "tag = prefix @ versionStr" and "triplet versionStr"
    by (simp_all add: extractVersionFromTag_Inr)
  then obtain a b c where vs: "versionStr = a @ ''.'' @ b @ ''.'' @ c"
    and d: "digits a" "digits b" "digits c"
    by (auto simp: triplet_iff)
  have sp: "Split versionStr (CHR ''.'') = [a, b, c]"
    using d by (simp add: vs Split_append_sep Split_no_sep digits_no_dot)
  from assms(2) have v: "major v = digitsValue a" "minor v = digitsValue b" "patch v = digitsValue c"
    "pre v = []" "metadata v = []"
    unfolding vs NewVersion_triplet [OF d] by (auto split: if_splits)
  have str: "String v = formatNat (digitsValue a) @ ''.'' @ formatNat (digitsValue b) @ ''.'' @ formatNat (digitsValue c)"
    by (simp add: String_triplet v)
  have "(prefix @ String v = tag) = list_all noLeadingZero (Split versionStr (CHR ''.''))"
  proof
    assume "prefix @ String v = tag"
    with tag have "String v = versionStr" by simp
    with str vs have "formatNat (digitsValue a) @ ''.'' @ formatNat (digitsValue b) @ ''.'' @ formatNat (digitsValue c)
        = a @ ''.'' @ b @ ''.'' @ c" by simp
    then have "formatNat (digitsValue a) = a \<and> formatNat (digitsValue b) = b \<and> formatNat (digitsValue c) = c"
      using d digitsValue_formatNat by (intro triplet_parts_unique) simp_all
    then have "noLeadingZero a \<and> noLeadingZero b \<and> noLeadingZero c"
      using noLeadingZero_formatNat by metis
    with sp show "list_all noLeadingZero (Split versionStr (CHR ''.''))" by simp
  next
    assume "list_all noLeadingZero (Split versionStr (CHR ''.''))"
    with sp have "noLeadingZero a" "noLeadingZero b" "noLeadingZero c" by simp_all
    with d have "formatNat (digitsValue a) = a" "formatNat (digitsValue b) = b" "formatNat (digitsValue c) = c"
      by (simp_all add: formatNat_digitsValue)
    with str vs tag show "prefix @ String v = tag" by simp
  qed
  with tag show ?thesis by simp
qed


lemma NewVersion_canonical_Some:
  assumes "ma < 2 ^ 64" "mi < 2 ^ 64" "pa < 2 ^ 64"
  shows "NewVersion (formatNat ma @ ''.'' @ formatNat mi @ ''.'' @ formatNat pa) =
     Some \<lparr>major = ma, minor = mi, patch = pa, pre = [], metadata = [],
           original = formatNat ma @ ''.'' @ formatNat mi @ ''.'' @ formatNat pa\<rparr>"
proof -
  have d: "digits (formatNat ma)" "digits (formatNat mi)" "digits (formatNat pa)"
    by (simp_all add: digitsValue_formatNat)
  show ?thesis
    unfolding NewVersion_triplet [OF d] using assms by (simp add: digitsValue_formatNat)
qed

lemma triplet_canonical: "triplet (formatNat ma @ ''.'' @ formatNat mi @ ''.'' @ formatNat pa)"
  unfolding triplet_iff using digitsValue_formatNat by blast

lemma Split_append_any: "Split (x @ sep # y) sep = Split x sep @ Split y sep"
proof (induction x)
  case Nil
  show ?case by simp
next
  case (Cons c x)
  obtain seg segs where sp: "Split x sep = seg # segs"
    using Split_not_Nil [of x sep] by (cases "Split x sep") auto
  with Cons.IH show ?case by simp
qed

lemma triplet_after_nondigit:
  assumes "q \<noteq> []" and "\<not> isDigit (last q)"
    and "digits a" "digits b" "digits c"
  shows "\<not> triplet (q @ a @ ''.'' @ b @ ''.'' @ c)"
proof
  assume t: "triplet (q @ a @ ''.'' @ b @ ''.'' @ c)"
  have "Split (q @ a @ ''.'' @ b @ ''.'' @ c) (CHR ''.'') = Split (q @ a) (CHR ''.'') @ Split (b @ ''.'' @ c) (CHR ''.'')"
    using Split_append_any [of "q @ a" "CHR ''.''" "b @ ''.'' @ c"] by simp
  also have "Split (b @ ''.'' @ c) (CHR ''.'') = [b, c]"
    using assms(4,5) by (simp add: Split_append_sep Split_no_sep digits_no_dot)
  finally have sp: "Split (q @ a @ ''.'' @ b @ ''.'' @ c) (CHR ''.'') = Split (q @ a) (CHR ''.'') @ [b, c]" .
  from t obtain x where x: "Split (q @ a) (CHR ''.'') = [x]" and dx: "digits x"
    unfolding triplet_def sp by (cases "Split (q @ a) (CHR ''.'')") (auto split: list.splits)
  have "Join (Split (q @ a) (CHR ''.'')) ''.'' = q @ a"
    by (rule Join_Split)
  with x have "x = q @ a" by simp
  with dx have "list_all isDigit q" by (simp add: digits_def)
  with assms(1) have "isDigit (last q)" by (simp add: list_all_iff)
  with assms(2) show False by simp
qed

lemma extractVersionFromTag_canonical:
  assumes "newline \<notin> set p" and "p = [] \<or> \<not> isDigit (last p)"
  shows "extractVersionFromTag (p @ formatNat ma @ ''.'' @ formatNat mi @ ''.'' @ formatNat pa) =
     Inr (p, formatNat ma @ ''.'' @ formatNat mi @ ''.'' @ formatNat pa)"
proof -
  have d: "digits (formatNat ma)" "digits (formatNat mi)" "digits (formatNat pa)"
    by (simp_all add: digitsValue_formatNat)
  have "\<not> triplet (drop k (p @ formatNat ma @ ''.'' @ formatNat mi @ ''.'' @ formatNat pa))"
    if k: "k < length p" for k
  proof -
    from k have ne: "drop k p \<noteq> []" by simp
    from k assms(2) have "\<not> isDigit (last (drop k p))" by auto
    from triplet_after_nondigit [OF ne this d] k show ?thesis by simp
  qed
  with assms(1) triplet_canonical [of ma mi pa] show ?thesis
    unfolding extractVersionFromTag_Inr by blast
qed



section \<open>Repository names\<close>

lemma Index_absent: "sep \<notin> set s \<Longrightarrow> Index s sep = - 1"
  by (simp add: Index_def)

lemma take_Index: "sep \<in> set s \<Longrightarrow> take (nat (Index s sep)) s = takeWhile (\<lambda>c. c \<noteq> sep) s"
proof -
  have "take (length (takeWhile (\<lambda>c. c \<noteq> sep) s)) s = takeWhile (\<lambda>c. c \<noteq> sep) s"
    by (induction s) auto
  moreover assume "sep \<in> set s"
  ultimately show ?thesis by (simp add: Index_def)
qed

lemma Split_two_segments:
  assumes "CHR ''/'' \<notin> set ns" "CHR ''/'' \<notin> set name" "rest = [] \<or> hd rest = CHR ''/''"
  shows "\<exists>others. Split (ns @ ''/'' @ name @ rest) (CHR ''/'') = ns # name # others"
proof (cases rest)
  case Nil
  with assms show ?thesis
    by (simp add: Split_append_sep Split_no_sep)
next
  case (Cons x xs)
  with assms(3) have "rest = CHR ''/'' # xs" by simp
  with assms show ?thesis
    by (simp add: Split_append_sep)
qed

text \<open>
  Claim C10, as amended.  \<^verbatim>\<open>ParseRepositoryName\<close> first cuts the string at its first
  colon, unless there is none or it is the first character; call the result \<open>r\<close> (it is
  the whole string when the string has no colon).  If \<open>r\<close> has no slash, the namespace is
  \<^verbatim>\<open>library\<close> and the name is \<open>r\<close>.  If \<open>r\<close> starts with two segments \<open>ns\<close> and
  \<open>name\<close> (and goes on with further segments or ends there), the namespace is \<open>ns\<close>,
  the name is \<open>name\<close> alone and \<^verbatim>\<open>FullName\<close> is all of \<open>r\<close>; the URL of the tag list is
  built from \<open>ns\<close> and \<open>name\<close> only.
\<close>

theorem ParseRepositoryName_first_two_segments:
  assumes "r = (if 0 < Index repo (CHR '':'') then take (nat (Index repo (CHR '':''))) repo else repo)"
  shows "(CHR ''/'' \<notin> set r \<longrightarrow>
            ParseRepositoryName repo = \<lparr>Namespace = ''library'', Name = r, FullName = ''library/'' @ r\<rparr>) \<and>
         (r = ns @ ''/'' @ name @ rest \<and> CHR ''/'' \<notin> set ns \<and> CHR ''/'' \<notin> set name \<and>
            (rest = [] \<or> hd rest = CHR ''/'') \<longrightarrow>
            ParseRepositoryName repo = \<lparr>Namespace = ns, Name = name, FullName = r\<rparr> \<and>
            tagsURL c (ParseRepositoryName repo) =
              baseURL c @ ''/'' @ ns @ ''/'' @ name @ ''/tags?page_size='' @ formatInt (pageSize c)) \<and>
         (CHR '':'' \<notin> set repo \<longrightarrow> r = repo) \<and>
         (0 < Index repo (CHR '':'') \<longrightarrow> r = takeWhile (\<lambda>x. x \<noteq> CHR '':'') repo)"
proof -
  have bare: "ParseRepositoryName repo = \<lparr>Namespace = ''library'', Name = r, FullName = ''library/'' @ r\<rparr>"
    if "CHR ''/'' \<notin> set r"
  proof -
    from that have "Split r (CHR ''/'') = [r]" by (rule Split_no_sep)
    then show ?thesis
      using assms by (simp add: ParseRepositoryName_def Let_def)
  qed
  have two: "ParseRepositoryName repo = \<lparr>Namespace = ns, Name = name, FullName = r\<rparr> \<and>
            tagsURL c (ParseRepositoryName repo) =
              baseURL c @ ''/'' @ ns @ ''/'' @ name @ ''/tags?page_size='' @ formatInt (pageSize c)"
    if a: "r = ns @ ''/'' @ name @ rest \<and> CHR ''/'' \<notin> set ns \<and> CHR ''/'' \<notin> set name \<and>
            (rest = [] \<or> hd rest = CHR ''/'')"
  proof -
    from a obtain others where "Split r (CHR ''/'') = ns # name # others"
      using Split_two_segments [of ns name rest] by auto
    then have "ParseRepositoryName repo = \<lparr>Namespace = ns, Name = name, FullName = r\<rparr>"
      using assms by (simp add: ParseRepositoryName_def Let_def)
    then show ?thesis
      by (simp add: tagsURL_def)
  qed
  have whole: "r = repo" if "CHR '':'' \<notin> set repo"
    using that assms by (simp add: Index_absent)
  have cut: "r = takeWhile (\<lambda>x. x \<noteq> CHR '':'') repo" if "0 < Index repo (CHR '':'')"
  proof -
    from that have "CHR '':'' \<in> set repo"
      by (auto simp: Index_def split: if_splits)
    with that assms show ?thesis
      by (simp add: take_Index)
  qed
  from bare two whole cut show ?thesis by blast
qed

lemmas formatInt_eval = formatInt_def formatNat.simps digitChar_def

theorem ParseRepositoryName_first_two_segments_witness:
  "ParseRepositoryName ''registry.example.com/team/app'' =
     \<lparr>Namespace = ''registry.example.com'', Name = ''team'', FullName = ''registry.example.com/team/app''\<rparr> \<and>
   tagsURL \<lparr>httpClient = (\<lambda>url (s :: unit). (TransportFailure, s)), pageSize = 100,
            baseURL = ''https://hub.docker.com/v2/repositories''\<rparr>
        (ParseRepositoryName ''registry.example.com/team/app'') =
     ''https://hub.docker.com/v2/repositories/registry.example.com/team/tags?page_size=100'' \<and>
   ParseRepositoryName ''nginx'' = \<lparr>Namespace = ''library'', Name = ''nginx'', FullName = ''library/nginx''\<rparr>"
proof -
  have i1: "Index ''registry.example.com/team/app'' (CHR '':'') = - 1"
    and i2: "Index ''nginx'' (CHR '':'') = - 1"
    by (simp_all add: Index_def)
  have 1: "ParseRepositoryName ''registry.example.com/team/app'' =
     \<lparr>Namespace = ''registry.example.com'', Name = ''team'', FullName = ''registry.example.com/team/app''\<rparr> \<and>
     tagsURL \<lparr>httpClient = (\<lambda>url (s :: unit). (TransportFailure, s)), pageSize = 100,
            baseURL = ''https://hub.docker.com/v2/repositories''\<rparr>
        (ParseRepositoryName ''registry.example.com/team/app'') =
     ''https://hub.docker.com/v2/repositories'' @ ''/'' @ ''registry.example.com'' @ ''/'' @ ''team'' @ ''/tags?page_size='' @ formatInt 100"
    using ParseRepositoryName_first_two_segments
      [of "''registry.example.com/team/app''" "''registry.example.com/team/app''"
          "''registry.example.com''" "''team''" "''/app''"
          "\<lparr>httpClient = (\<lambda>url (s :: unit). (TransportFailure, s)), pageSize = 100,
            baseURL = ''https://hub.docker.com/v2/repositories''\<rparr>"]
    by (auto simp: i1)
  have 2: "ParseRepositoryName ''nginx'' = \<lparr>Namespace = ''library'', Name = ''nginx'', FullName = ''library/nginx''\<rparr>"
    using ParseRepositoryName_first_two_segments [of "''nginx''" "''nginx''" "[]" "[]" "[]"
        "\<lparr>httpClient = (\<lambda>url (s :: unit). (TransportFailure, s)), pageSize = 100, baseURL = []\<rparr>"]
    by (simp add: i2)
  have f: "formatInt 100 = ''100''"
    by (simp add: formatInt_eval)
  from 1 have a: "ParseRepositoryName ''registry.example.com/team/app'' =
     \<lparr>Namespace = ''registry.example.com'', Name = ''team'', FullName = ''registry.example.com/team/app''\<rparr>"
    by blast
  from 1 have b: "tagsURL \<lparr>httpClient = (\<lambda>url (s :: unit). (TransportFailure, s)), pageSize = 100,
            baseURL = ''https://hub.docker.com/v2/repositories''\<rparr>
        (ParseRepositoryName ''registry.example.com/team/app'') =
     ''https://hub.docker.com/v2/repositories/registry.example.com/team/tags?page_size=100''"
    unfolding f by (elim conjE) simp
  from a b 2 show ?thesis
    by (intro conjI)
qed

text \<open>
  The claim as stated speaks of every string with two or more segments.  With a colon in
  it (a registry host with a port, or a reference that still carries its tag) the string
  is cut first: the three segments of \<^verbatim>\<open>registry.example.com:5000/team/app\<close> give the
  namespace \<^verbatim>\<open>library\<close> and the name \<^verbatim>\<open>registry.example.com\<close>.
\<close>

theorem ParseRepositoryName_tag_counterexample:
  "2 \<le> length (Split ''registry.example.com:5000/team/app'' (CHR ''/'')) \<and>
   \<not> (Namespace (ParseRepositoryName ''registry.example.com:5000/team/app'') =
          Split ''registry.example.com:5000/team/app'' (CHR ''/'') ! 0 \<and>
        Name (ParseRepositoryName ''registry.example.com:5000/team/app'') =
          Split ''registry.example.com:5000/team/app'' (CHR ''/'') ! 1 \<and>
        FullName (ParseRepositoryName ''registry.example.com:5000/team/app'') =
          ''registry.example.com:5000/team/app'')"
  by (simp add: ParseRepositoryName_def Index_def Let_def)

text \<open>A reference with its tag loses the tag in \<^verbatim>\<open>Name\<close> and in \<^verbatim>\<open>FullName\<close>.\<close>

lemma ParseRepositoryName_with_tag:
  "ParseRepositoryName ''team/app:1.0'' = \<lparr>Namespace = ''team'', Name = ''app'', FullName = ''team/app''\<rparr>"
  by (simp add: ParseRepositoryName_def Index_def Let_def)

section \<open>Fetching all tags\<close>

lemma fetchPages_end: "fetchPages ctxDone c [] tags s = Some (Inr tags, s)"
  by (subst fetchPages.simps) simp

lemma fetchPages_page:
  assumes "url \<noteq> []" "\<not> ctxDone s" "httpClient c url s = (Response StatusOK (Decoded page), s')"
  shows "fetchPages ctxDone c url tags s = fetchPages ctxDone c (Next page) (tags @ map TagName (Results page)) s'"
  by (subst fetchPages.simps) (simp add: assms)

lemma fetchPages_follow:
  "follow c url s pages = Some (url', s') \<Longrightarrow>
   fetchPages Background c url tags s = fetchPages Background c url' (tags @ tagNames pages) s'"
proof (induction pages arbitrary: url s tags)
  case Nil
  then show ?case by (simp add: tagNames_def)
next
  case (Cons page pages)
  from Cons.prems have u: "url \<noteq> []"
    and r: "httpClient c url s = (Response StatusOK (Decoded page), snd (httpClient c url s))"
    and f: "follow c (Next page) (snd (httpClient c url s)) pages = Some (url', s')"
    by (auto simp: prod_eq_iff split: if_splits)
  have "fetchPages Background c url tags s =
        fetchPages Background c (Next page) (tags @ map TagName (Results page)) (snd (httpClient c url s))"
    using u r by (intro fetchPages_page) (simp_all add: Background_def)
  also have "\<dots> = fetchPages Background c url' ((tags @ map TagName (Results page)) @ tagNames pages) s'"
    by (rule Cons.IH [OF f])
  finally show ?case by (simp add: tagNames_def)
qed

text \<open>
  Claim C4.  When the registry serves a complete chain of pages for the repository (every
  page with status 200, the last one with an empty \<^verbatim>\<open>next\<close>), \<^verbatim>\<open>FetchAllTags\<close> returns
  and its result is exactly the concatenation of the pages' tag names, in page order and
  in the order of each response: nothing is removed and nothing is sorted.
\<close>

theorem FetchAllTags_concatenates_pages:
  assumes "follow c (tagsURL c (ParseRepositoryName repo)) s pages = Some ([], s')"
  shows "FetchAllTags c repo s = Some (Inr (tagNames pages), s')"
  using fetchPages_follow [OF assms, of "[]"]
  by (simp add: FetchAllTags_def FetchAllTagsWithContext_def fetchPages_end)

lemma exampleRegistry_url: "tagsURL exampleRegistry (ParseRepositoryName ''nginx'') = ''https://hub/library/nginx/tags?page_size=100''"
  by (simp add: tagsURL_def ParseRepositoryName_def Index_def exampleRegistry_def formatInt_eval Let_def)

lemma exampleRegistry_follow:
  "follow exampleRegistry ''https://hub/library/nginx/tags?page_size=100'' 0 examplePages = Some ([], 3)"
  by (simp add: exampleRegistry_def examplePages_def StatusOK_def)

text \<open>Three pages of two tags each, with \<^verbatim>\<open>a\<close> twice: all six come back in order.\<close>

theorem FetchAllTags_concatenates_pages_witness:
  "follow exampleRegistry (tagsURL exampleRegistry (ParseRepositoryName ''nginx'')) 0 examplePages = Some ([], 3) \<and>
   FetchAllTags exampleRegistry ''nginx'' 0 = Some (Inr [''b'', ''a'', ''c'', ''a'', ''e'', ''d''], 3)"
proof -
  have f: "follow exampleRegistry (tagsURL exampleRegistry (ParseRepositoryName ''nginx'')) 0 examplePages = Some ([], 3)"
    unfolding exampleRegistry_url by (rule exampleRegistry_follow)
  have "tagNames examplePages = [''b'', ''a'', ''c'', ''a'', ''e'', ''d'']"
    by (simp add: tagNames_def examplePages_def)
  with FetchAllTags_concatenates_pages [OF f] f show ?thesis by simp
qed

text \<open>
  Claim C5, as amended.  Take any page request of \<^verbatim>\<open>FetchAllTags\<close>: the pages before it
  were fetched and the registry now answers with a status code and a body.  If the
  status is not 200, the whole fetch fails with the error that carries the status code;
  the tags gathered so far are dropped, and the final state of the world is the one right
  after this reply, so no further request is made (no retry).  If the status is 200, the
  fetch goes on with the body: this reply causes no status error.
\<close>

theorem FetchAllTags_status:
  assumes "follow c (tagsURL c (ParseRepositoryName repo)) s pages = Some (url, s1)"
    and "url \<noteq> []"
    and "httpClient c url s1 = (Response code b, s2)"
  shows "FetchAllTags c repo s =
     (if code \<noteq> StatusOK then Some (Inl (UnexpectedStatusCode code), s2)
      else (case b of
              ReadFailure \<Rightarrow> Some (Inl ReadingResponse, s2)
            | Undecodable \<Rightarrow> Some (Inl JSONParseError, s2)
            | Decoded parsed \<Rightarrow>
                fetchPages Background c (Next parsed) (tagNames pages @ map TagName (Results parsed)) s2))"
proof -
  have "FetchAllTags c repo s = fetchPages Background c url (tagNames pages) s1"
    using fetchPages_follow [OF assms(1), of "[]"]
    by (simp add: FetchAllTags_def FetchAllTagsWithContext_def)
  also have "\<dots> = (if code \<noteq> StatusOK then Some (Inl (UnexpectedStatusCode code), s2)
      else (case b of
              ReadFailure \<Rightarrow> Some (Inl ReadingResponse, s2)
            | Undecodable \<Rightarrow> Some (Inl JSONParseError, s2)
            | Decoded parsed \<Rightarrow>
                fetchPages Background c (Next parsed) (tagNames pages @ map TagName (Results parsed)) s2))"
    by (subst fetchPages.simps) (simp add: assms Background_def)
  finally show ?thesis .
qed

lemma failingRegistry_url:
  "tagsURL failingRegistry (ParseRepositoryName ''nginx'') = ''https://hub/library/nginx/tags?page_size=100''"
  by (simp add: tagsURL_def ParseRepositoryName_def Index_def failingRegistry_def formatInt_eval Let_def)

text \<open>The first page is served, the second request is answered with 503: two requests, no third.\<close>

theorem FetchAllTags_status_witness:
  "follow failingRegistry (tagsURL failingRegistry (ParseRepositoryName ''nginx'')) 0 [examplePages ! 0] =
     Some (''https://hub/p2'', 1) \<and>
   httpClient failingRegistry ''https://hub/p2'' 1 = (Response 503 Undecodable, 2) \<and>
   FetchAllTags failingRegistry ''nginx'' 0 = Some (Inl (UnexpectedStatusCode 503), 2)"
proof -
  have f: "follow failingRegistry (tagsURL failingRegistry (ParseRepositoryName ''nginx'')) 0 [examplePages ! 0] =
     Some (''https://hub/p2'', 1)"
    unfolding failingRegistry_url
    by (simp add: failingRegistry_def examplePages_def StatusOK_def)
  have u: "''https://hub/p2'' \<noteq> []" by simp
  have h: "httpClient failingRegistry ''https://hub/p2'' 1 = (Response 503 Undecodable, 2)"
    by (simp add: failingRegistry_def)
  from FetchAllTags_status [OF f u h] f h show ?thesis
    by (simp add: StatusOK_def)
qed

text \<open>No run ever ends in a status error for the code 200.\<close>

lemma fetchPages_never_status_200:
  assumes "fetchPages ctxDone c url tags s = Some y"
  shows "fst y \<noteq> Inl (UnexpectedStatusCode StatusOK)"
proof (rule fetchPages.raw_induct
    [where P = "\<lambda>ctxDone c url tags s y. fst y \<noteq> Inl (UnexpectedStatusCode StatusOK)", OF _ assms])
  fix f :: "('s \<Rightarrow> bool) \<Rightarrow> 's Client \<Rightarrow> string \<Rightarrow> string list \<Rightarrow> 's \<Rightarrow> ((fetch_error + string list) \<times> 's) option"
  fix ctxDone c url tags s y
  assume 1: "\<And>ctxDone c url tags s y. f ctxDone c url tags s = Some y \<Longrightarrow> fst y \<noteq> Inl (UnexpectedStatusCode StatusOK)"
    "(if url = [] then Some (Inr tags, s)
      else if ctxDone s then Some (Inl ContextCanceled, s)
      else (case httpClient c url s of
              (RequestFailure, s') \<Rightarrow> Some (Inl CreatingRequest, s')
            | (TransportFailure, s') \<Rightarrow> Some (Inl FetchingTags, s')
            | (Response StatusCode b, s') \<Rightarrow>
                if StatusCode \<noteq> StatusOK then Some (Inl (UnexpectedStatusCode StatusCode), s')
                else (case b of
                        ReadFailure \<Rightarrow> Some (Inl ReadingResponse, s')
                      | Undecodable \<Rightarrow> Some (Inl JSONParseError, s')
                      | Decoded parsed \<Rightarrow>
                          f ctxDone c (Next parsed) (tags @ map TagName (Results parsed)) s'))) = Some y"
  show "fst y \<noteq> Inl (UnexpectedStatusCode StatusOK)"
  proof (cases "url = [] \<or> ctxDone s")
    case True
    with 1(2) show ?thesis by (auto split: if_splits)
  next
    case False
    obtain r s' where h: "httpClient c url s = (r, s')"
      by (cases "httpClient c url s")
    show ?thesis
    proof (cases r)
      case RequestFailure
      with 1(2) False h show ?thesis by auto
    next
      case TransportFailure
      with 1(2) False h show ?thesis by auto
    next
      case (Response code b)
      show ?thesis
      proof (cases "code = StatusOK")
        case ne: False
        with 1(2) False h Response show ?thesis by auto
      next
        case True
        show ?thesis
        proof (cases b)
          case ReadFailure
          with 1(2) False h Response True show ?thesis by auto
        next
          case Undecodable
          with 1(2) False h Response True show ?thesis by auto
        next
          case (Decoded parsed)
          with 1(2) False h Response True
          have "f ctxDone c (Next parsed) (tags @ map TagName (Results parsed)) s' = Some y"
            by auto
          then show ?thesis by (rule 1(1))
        qed
      qed
    qed
  qed
qed

text \<open>
  The claim as stated takes every 2xx reply to pass the status check.  The check is
  \<^verbatim>\<open>resp.StatusCode != http.StatusOK\<close>: a 204 reply fails the fetch.
\<close>

theorem FetchAllTags_no_content_counterexample:
  "(200 :: int) \<le> 204 \<and> (204 :: int) < 300 \<and>
   FetchAllTags noContentRegistry ''nginx'' () = Some (Inl (UnexpectedStatusCode 204), ())"
proof -
  have "tagsURL noContentRegistry (ParseRepositoryName ''nginx'') \<noteq> []"
    by (simp add: tagsURL_def)
  then show ?thesis
    unfolding FetchAllTags_def FetchAllTagsWithContext_def
    by (subst fetchPages.simps) (simp add: noContentRegistry_def Background_def StatusOK_def)
qed

section \<open>Comparing versions\<close>

text \<open>Every version the parser returns is valid, and on valid versions the key decides.\<close>

lemma containsOnly_num: "containsOnly p num = list_all isDigit p"
  by (simp only: containsOnly_def num_def isDigit_def [abs_def])

lemma versionRegex_pre:
  assumes "versionRegex s = Some (m1, m2, m3, m5, m8)"
  shows "m5 = [] \<or> identifiers m5"
proof -
  obtain s0 where s0: "s0 = (case s of [] \<Rightarrow> s | c # r \<Rightarrow> if c = CHR ''v'' then r else s)" by simp
  obtain m2' s2 where d1: "dotNumber (dropWhile isDigit s0) = (m2', s2)" by (cases "dotNumber (dropWhile isDigit s0)")
  obtain m3' s3 where d2: "dotNumber s2 = (m3', s3)" by (cases "dotNumber s2")
  from assms show ?thesis
    unfolding versionRegex_def s0 [symmetric] Let_def d1 d2 prod.case
    by (auto split: if_splits)
qed

lemma NewVersion_valid:
  assumes "NewVersion s = Some v"
  shows "validVersion v"
proof -
  from assms obtain m1 m2 m3 m5 m8 where r: "versionRegex s = Some (m1, m2, m3, m5, m8)"
    and p: "pre v = m5" and ok: "m5 = [] \<or> validatePrerelease m5"
    by (auto simp: NewVersion_def split: option.splits if_splits)
  show ?thesis
  proof (cases "m5 = []")
    case True
    with p show ?thesis by (simp add: validVersion_def)
  next
    case False
    with versionRegex_pre [OF r] ok have i: "identifiers m5" and v: "validatePrerelease m5"
      by simp_all
    have "validPart q" if "q \<in> set (Split m5 (CHR ''.''))" for q
    proof -
      from i that have ne: "q \<noteq> []"
        by (auto simp: identifiers_def list_all_iff)
      from v that have "if containsOnly q num then \<not> (1 < length q \<and> hd q = CHR ''0'') else containsOnly q allowed"
        by (auto simp: validatePrerelease_def list_all_iff)
      with ne show ?thesis
        by (auto simp: validPart_def containsOnly_num noLeadingZero_def split: if_splits)
    qed
    with False p show ?thesis
      by (simp add: validVersion_def list_all_iff)
  qed
qed

lemma of_char_less: "(c :: char) < d \<longleftrightarrow> (of_char c :: nat) < of_char d"
  by (simp add: less_char_def)

lemma of_char_inj_nat: "(of_char c :: nat) = of_char d \<longleftrightarrow> c = d"
  by simp

lemma map_of_char_less: "map (of_char :: char \<Rightarrow> nat) xs < map of_char ys \<longleftrightarrow> xs < ys"
proof (induction xs arbitrary: ys)
  case Nil
  show ?case by (cases ys) simp_all
next
  case (Cons x xs)
  show ?case
  proof (cases ys)
    case Nil
    then show ?thesis by simp
  next
    case (Cons y ys')
    with Cons.IH [of ys'] show ?thesis
      by (simp add: of_char_less)
  qed
qed

lemma ParseUint_Some: "ParseUint p = Some n \<Longrightarrow> digits p \<and> n = digitsValue p"
  by (auto simp: ParseUint_def digits_def split: if_splits)

lemma digitsValue_inj:
  assumes "digits s" "digits t" "noLeadingZero s" "noLeadingZero t" "digitsValue s = digitsValue t"
  shows "s = t"
proof -
  have "s = formatNat (digitsValue s)"
    using assms(1,3) by (simp add: formatNat_digitsValue)
  also have "\<dots> = formatNat (digitsValue t)"
    by (simp only: assms(5))
  also have "\<dots> = t"
    using assms(2,4) by (simp add: formatNat_digitsValue)
  finally show ?thesis .
qed

lemma partKey_eq: "validPart s \<Longrightarrow> validPart t \<Longrightarrow> partKey s = partKey t \<longleftrightarrow> s = t"
proof
  assume v: "validPart s" "validPart t" and k: "partKey s = partKey t"
  show "s = t"
  proof (cases "ParseUint s")
    case None
    with k obtain "ParseUint t = None" "map (of_char :: char \<Rightarrow> nat) s = map of_char t"
      by (auto simp: partKey_def split: option.splits)
    moreover have "inj (of_char :: char \<Rightarrow> nat)"
      by (rule injI) simp
    ultimately show ?thesis
      by (simp add: inj_map_eq_map)
  next
    case (Some n)
    with k have t: "ParseUint t = Some n"
      by (auto simp: partKey_def split: option.splits)
    from ParseUint_Some [OF Some] ParseUint_Some [OF t] v show ?thesis
      by (intro digitsValue_inj) (auto simp: validPart_def digits_def)
  qed
qed simp

lemma comparePrePart_key:
  assumes "validPart s" "validPart t"
  shows "(0 < comparePrePart s t \<longleftrightarrow> partKey t < partKey s) \<and> (comparePrePart s t = 0 \<longleftrightarrow> s = t)"
proof (cases "s = t")
  case True
  then show ?thesis by (simp add: comparePrePart_def)
next
  case False
  from assms have ne: "s \<noteq> []" "t \<noteq> []" by (simp_all add: validPart_def)
  show ?thesis
  proof (cases "ParseUint t")
    case tn: None
    show ?thesis
    proof (cases "ParseUint s")
      case None
      with tn False ne show ?thesis
        by (auto simp: comparePrePart_def partKey_def map_of_char_less)
    next
      case (Some si)
      with tn False ne show ?thesis
        by (simp add: comparePrePart_def partKey_def)
    qed
  next
    case ts: (Some ti)
    show ?thesis
    proof (cases "ParseUint s")
      case None
      with ts False ne show ?thesis
        by (simp add: comparePrePart_def partKey_def)
    next
      case (Some si)
      have "si \<noteq> ti"
      proof
        assume "si = ti"
        with Some ts have "partKey s = partKey t" by (simp add: partKey_def)
        with assms False show False by (simp add: partKey_eq)
      qed
      with Some ts False ne show ?thesis
        by (auto simp: comparePrePart_def partKey_def)
    qed
  qed
qed

lemma comparePreParts_key:
  "list_all validPart ss \<Longrightarrow> list_all validPart ts \<Longrightarrow>
   0 < comparePreParts ss ts \<longleftrightarrow> map partKey ts < map partKey ss"
proof (induction ss ts rule: comparePreParts.induct)
  case 1
  show ?case by simp
next
  case (2 s sparts)
  then have "s \<noteq> []" by (simp add: validPart_def)
  then have "comparePrePart s [] = 1" by (simp add: comparePrePart_def)
  then show ?case by simp
next
  case (3 t tparts)
  then have "t \<noteq> []" by (simp add: validPart_def)
  then have "comparePrePart [] t = - 1" by (simp add: comparePrePart_def)
  then show ?case by simp
next
  case (4 s sparts t tparts)
  then have v: "validPart s" "validPart t" by simp_all
  note c = comparePrePart_key [OF v]
  show ?case
  proof (cases "comparePrePart s t = 0")
    case True
    with c have "s = t" by simp
    with True 4 show ?thesis by simp
  next
    case False
    with c have "s \<noteq> t" by simp
    with v have "partKey s \<noteq> partKey t" by (simp add: partKey_eq)
    with False c show ?thesis by auto
  qed
qed

lemma GreaterThan_key:
  assumes "validVersion a" "validVersion b"
  shows "GreaterThan a b \<longleftrightarrow> versionKey b < versionKey a"
proof (cases "major a = major b \<and> minor a = minor b \<and> patch a = patch b")
  case False
  then show ?thesis
    by (auto simp: GreaterThan_def Compare_def compareSegment_def versionKey_def)
next
  case True
  show ?thesis
  proof (cases "pre a = [] \<or> pre b = []")
    case True
    with \<open>major a = major b \<and> minor a = minor b \<and> patch a = patch b\<close> show ?thesis
      by (auto simp: GreaterThan_def Compare_def compareSegment_def versionKey_def)
  next
    case False
    with assms have "list_all validPart (Split (pre a) (CHR ''.''))" "list_all validPart (Split (pre b) (CHR ''.''))"
      by (simp_all add: validVersion_def)
    from comparePreParts_key [OF this] False True show ?thesis
      by (simp add: GreaterThan_def Compare_def compareSegment_def versionKey_def comparePrerelease_def)
  qed
qed

section \<open>Sorting and the update decision\<close>

text \<open>
  The insertion sort keeps the elements and the length, and puts first an element that no
  other one precedes, whenever \<open>lt\<close> is the strict order of a key on the elements.
\<close>

lemma set_insertionStep: "set (insertionStep lt x acc) = insert x (set acc)"
  by (induction acc) auto

lemma length_insertionStep: "length (insertionStep lt x acc) = Suc (length acc)"
  by (induction acc) auto

lemma sorted_insertionStep:
  fixes k :: "'a \<Rightarrow> 'b :: linorder"
  assumes "\<forall>y \<in> set acc. lt x y \<longleftrightarrow> k y < k x" "sorted (map k acc)"
  shows "sorted (map k (insertionStep lt x acc))"
  using assms
proof (induction acc)
  case Nil
  show ?case by simp
next
  case (Cons y acc)
  show ?case
  proof (cases "lt x y")
    case True
    with Cons.prems have "k y < k x" by simp
    moreover from Cons have "sorted (map k (insertionStep lt x acc))" by simp
    moreover from Cons.prems have "\<forall>z \<in> set acc. k y \<le> k z" by simp
    ultimately show ?thesis
      using True by (auto simp: set_insertionStep)
  next
    case False
    with Cons.prems have "k x \<le> k y" by auto
    with False Cons.prems show ?thesis by auto
  qed
qed

lemma foldl_insertionStep:
  fixes k :: "'a \<Rightarrow> 'b :: linorder"
  assumes "\<forall>x \<in> set xs \<union> set acc. \<forall>y \<in> set xs \<union> set acc. lt x y \<longleftrightarrow> k y < k x"
    and "sorted (map k acc)"
  shows "sorted (map k (foldl (\<lambda>sorted x. insertionStep lt x sorted) acc xs)) \<and>
         set (foldl (\<lambda>sorted x. insertionStep lt x sorted) acc xs) = set acc \<union> set xs \<and>
         length (foldl (\<lambda>sorted x. insertionStep lt x sorted) acc xs) = length acc + length xs"
  using assms
proof (induction xs arbitrary: acc)
  case Nil
  then show ?case by simp
next
  case (Cons x xs)
  have s: "sorted (map k (insertionStep lt x acc))"
    using Cons.prems by (intro sorted_insertionStep) auto
  have a: "\<forall>u \<in> set xs \<union> set (insertionStep lt x acc). \<forall>v \<in> set xs \<union> set (insertionStep lt x acc).
             lt u v \<longleftrightarrow> k v < k u"
    using Cons.prems(1) by (auto simp: set_insertionStep)
  from Cons.IH [OF a s] show ?case
    by (auto simp: set_insertionStep length_insertionStep)
qed

lemma length_sortSlice: "length (sortSlice lt xs) = length xs"
proof -
  have "length (foldl (\<lambda>sorted x. insertionStep lt x sorted) acc xs) = length acc + length xs" for acc
    by (induction xs arbitrary: acc) (simp_all add: length_insertionStep)
  then show ?thesis by (simp add: sortSlice_def)
qed

lemma sortSlice_first:
  fixes k :: "'a \<Rightarrow> 'b :: linorder"
  assumes "\<forall>x \<in> set xs. \<forall>y \<in> set xs. lt x y \<longleftrightarrow> k y < k x"
    and "sortSlice lt xs = first # others"
  shows "first \<in> set xs \<and> (\<forall>x \<in> set xs. k x \<le> k first)"
proof -
  let ?acc = "foldl (\<lambda>sorted x. insertionStep lt x sorted) [] xs"
  from assms(1) have f: "sorted (map k ?acc)" "set ?acc = set xs"
    using foldl_insertionStep [of xs "[]" lt k] by simp_all
  from assms(2) have r: "?acc = rev others @ [first]"
    by (simp add: sortSlice_def rev_swap [symmetric])
  from f(2) r have "first \<in> set xs" by auto
  moreover have "k x \<le> k first" if "x \<in> set xs" for x
  proof -
    from that f(2) r have "x \<in> set (rev others) \<or> x = first" by auto
    moreover from f(1) r have "\<forall>y \<in> set (rev others). k y \<le> k first"
      by (simp add: sorted_append)
    ultimately show ?thesis by auto
  qed
  ultimately show ?thesis by blast
qed

lemma findMatchingVersions_valid:
  "cand \<in> set (findMatchingVersions tags prefix) \<Longrightarrow> validVersion (Version cand)"
  by (induction tags) (auto split: if_splits option.splits dest: NewVersion_valid)

text \<open>
  Claim C3.  Let the image parse to a current version, let the tag list be fetched and let
  at least one tag match the prefix.  Then \<^verbatim>\<open>CheckImage\<close> returns, and the candidate
  it selects is a maximum of the candidates (no candidate is greater).  \<^verbatim>\<open>HasUpdate\<close>
  is true exactly when the version of the selected candidate is strictly greater than the
  current version: when it compares equal or less, \<^verbatim>\<open>HasUpdate\<close> is false, so a
  candidate at or below the current version is never proposed.
\<close>

theorem CheckImage_HasUpdate:
  assumes "parseImageString img = Inr (repo, tag)"
    and "extractVersionFromTag tag = Inr (prefix, versionStr)"
    and "NewVersion versionStr = Some currentVer"
    and "FetchAllTags dockerClient repo s = Some (Inr tags, s')"
    and "findMatchingVersions tags prefix \<noteq> []"
  shows "\<exists>info selected.
           CheckImage dockerClient img s = Some (Inr info, s') \<and>
           selected \<in> set (findMatchingVersions tags prefix) \<and>
           (\<forall>cand \<in> set (findMatchingVersions tags prefix). \<not> GreaterThan (Version cand) (Version selected)) \<and>
           LatestTag info = FullTag selected \<and>
           LatestVersion info = Some (Version selected) \<and>
           CurrentVersion info = currentVer \<and>
           HasUpdate info = GreaterThan (Version selected) currentVer \<and>
           HasUpdate info = (\<not> Compare (Version selected) currentVer \<le> 0)"
proof -
  let ?m = "findMatchingVersions tags prefix"
  let ?lt = "\<lambda>a b. GreaterThan (Version a) (Version b)"
  from assms(5) have "length (sortSlice ?lt ?m) \<noteq> 0"
    by (simp add: length_sortSlice)
  then obtain selected others where sorted: "sortSlice ?lt ?m = selected # others"
    by (cases "sortSlice ?lt ?m") auto
  have agree: "\<forall>x \<in> set ?m. \<forall>y \<in> set ?m. ?lt x y \<longleftrightarrow> versionKey (Version y) < versionKey (Version x)"
    by (simp add: GreaterThan_key findMatchingVersions_valid)
  from sortSlice_first [OF agree sorted]
  have sel: "selected \<in> set ?m" and max: "\<forall>x \<in> set ?m. versionKey (Version x) \<le> versionKey (Version selected)"
    by simp_all
  have maximal: "\<forall>cand \<in> set ?m. \<not> GreaterThan (Version cand) (Version selected)"
  proof
    fix cand assume c: "cand \<in> set ?m"
    with max have "\<not> versionKey (Version selected) < versionKey (Version cand)" by auto
    with c sel show "\<not> GreaterThan (Version cand) (Version selected)"
      by (simp add: GreaterThan_key findMatchingVersions_valid)
  qed
  have latest: "findLatestVersion dockerClient repo prefix s = Some (Inr (Some selected), s')"
    using assms(4,5) sorted by (simp add: findLatestVersion_def)
  let ?info = "\<lparr>Repository = repo, Tag = tag, Prefix = prefix, CurrentVersion = currentVer,
                LatestTag = FullTag selected, LatestVersion = Some (Version selected),
                HasUpdate = GreaterThan (Version selected) currentVer\<rparr>"
  have "CheckImage dockerClient img s = Some (Inr ?info, s')"
    using assms(1-3) latest by (simp add: CheckImage_def)
  with sel maximal show ?thesis
    by (intro exI [of _ ?info] exI [of _ selected]) (simp add: GreaterThan_def not_le)
qed


text \<open>The scenario: two candidates, the greater one is selected and is an update.\<close>

lemma scenario_tags:
  "FetchAllTags scenarioRegistry ''nginx'' 0 = Some (Inr [''apache-2.34.0'', ''apache-2.35.0'', ''apache-rc1''], 1)"
proof -
  have u: "tagsURL scenarioRegistry (ParseRepositoryName ''nginx'') \<noteq> []"
    by (simp add: tagsURL_def)
  have "follow scenarioRegistry (tagsURL scenarioRegistry (ParseRepositoryName ''nginx'')) 0
          [\<lparr>Results = [\<lparr>TagName = ''apache-2.34.0''\<rparr>, \<lparr>TagName = ''apache-2.35.0''\<rparr>,
                       \<lparr>TagName = ''apache-rc1''\<rparr>], Next = [], Count = 3\<rparr>] = Some ([], 1)"
    using u by (simp add: scenarioRegistry_def StatusOK_def)
  from fetchPages_follow [OF this, of "[]"] show ?thesis
    by (simp add: FetchAllTags_def FetchAllTagsWithContext_def fetchPages_end tagNames_def)
qed

lemma scenario_candidates:
  "findMatchingVersions [''apache-2.34.0'', ''apache-2.35.0'', ''apache-rc1''] ''apache-'' =
     [\<lparr>FullTag = ''apache-2.34.0'',
        Version = \<lparr>major = 2, minor = 34, patch = 0, pre = [], metadata = [], original = ''2.34.0''\<rparr>\<rparr>,
      \<lparr>FullTag = ''apache-2.35.0'',
        Version = \<lparr>major = 2, minor = 35, patch = 0, pre = [], metadata = [], original = ''2.35.0''\<rparr>\<rparr>]"
  by (simp add: NewVersion_eval)

lemmas Compare_eval = GreaterThan_def Compare_def compareSegment_def

theorem CheckImage_HasUpdate_witness:
  "parseImageString ''nginx:apache-2.34.0'' = Inr (''nginx'', ''apache-2.34.0'') \<and>
   extractVersionFromTag ''apache-2.34.0'' = Inr (''apache-'', ''2.34.0'') \<and>
   NewVersion ''2.34.0'' =
     Some \<lparr>major = 2, minor = 34, patch = 0, pre = [], metadata = [], original = ''2.34.0''\<rparr> \<and>
   FetchAllTags scenarioRegistry ''nginx'' 0 =
     Some (Inr [''apache-2.34.0'', ''apache-2.35.0'', ''apache-rc1''], 1) \<and>
   findMatchingVersions [''apache-2.34.0'', ''apache-2.35.0'', ''apache-rc1''] ''apache-'' \<noteq> [] \<and>
   (\<exists>info. CheckImage scenarioRegistry ''nginx:apache-2.34.0'' 0 = Some (Inr info, 1) \<and>
           LatestTag info = ''apache-2.35.0'' \<and> HasUpdate info)"
proof -
  have p: "parseImageString ''nginx:apache-2.34.0'' = Inr (''nginx'', ''apache-2.34.0'')"
    by (simp add: parseImageString_def ImageTagPattern_def newline_def)
  have e: "extractVersionFromTag ''apache-2.34.0'' = Inr (''apache-'', ''2.34.0'')"
    by (simp add: extractVersionFromTag_def SemverTagPattern_def triplet_def digits_def isDigit_def newline_def)
  have n: "NewVersion ''2.34.0'' =
     Some \<lparr>major = 2, minor = 34, patch = 0, pre = [], metadata = [], original = ''2.34.0''\<rparr>"
    by (simp add: NewVersion_eval)
  have m: "findMatchingVersions [''apache-2.34.0'', ''apache-2.35.0'', ''apache-rc1''] ''apache-'' \<noteq> []"
    unfolding scenario_candidates by simp
  from CheckImage_HasUpdate [OF p e n scenario_tags m]
  obtain info selected where c: "CheckImage scenarioRegistry ''nginx:apache-2.34.0'' 0 = Some (Inr info, 1)"
    and s: "selected \<in> set (findMatchingVersions [''apache-2.34.0'', ''apache-2.35.0'', ''apache-rc1''] ''apache-'')"
    and mx: "\<forall>cand \<in> set (findMatchingVersions [''apache-2.34.0'', ''apache-2.35.0'', ''apache-rc1''] ''apache-'').
              \<not> GreaterThan (Version cand) (Version selected)"
    and l: "LatestTag info = FullTag selected"
    and h: "HasUpdate info = GreaterThan (Version selected)
              \<lparr>major = 2, minor = 34, patch = 0, pre = [], metadata = [], original = ''2.34.0''\<rparr>"
    by blast
  from s mx have "FullTag selected = ''apache-2.35.0'' \<and> Version selected =
      \<lparr>major = 2, minor = 35, patch = 0, pre = [], metadata = [], original = ''2.35.0''\<rparr>"
    unfolding scenario_candidates by (auto simp: Compare_eval)
  with l h have "LatestTag info = ''apache-2.35.0'' \<and> HasUpdate info"
    by (simp add: Compare_eval)
  with c p e n m scenario_tags show ?thesis by blast
qed

text \<open>
  An image that already carries the greatest tag gets no update: the selected version
  equals the current one.
\<close>

lemma scenario_latest:
  "findLatestVersion scenarioRegistry ''nginx'' ''apache-'' 0 =
     Some (Inr (Some \<lparr>FullTag = ''apache-2.35.0'',
        Version = \<lparr>major = 2, minor = 35, patch = 0, pre = [], metadata = [], original = ''2.35.0''\<rparr>\<rparr>), 1)"
  unfolding findLatestVersion_def scenario_tags option.case prod.case sum.case scenario_candidates
  by (simp add: sortSlice_def Compare_eval)

lemma CheckImage_up_to_date:
  "CheckImage scenarioRegistry ''nginx:apache-2.35.0'' 0 =
     Some (Inr \<lparr>Repository = ''nginx'', Tag = ''apache-2.35.0'', Prefix = ''apache-'',
                 CurrentVersion = \<lparr>major = 2, minor = 35, patch = 0, pre = [], metadata = [],
                                     original = ''2.35.0''\<rparr>,
                 LatestTag = ''apache-2.35.0'',
                 LatestVersion = Some \<lparr>major = 2, minor = 35, patch = 0, pre = [], metadata = [],
                                        original = ''2.35.0''\<rparr>,
                 HasUpdate = False\<rparr>, 1)"
proof -
  have p: "parseImageString ''nginx:apache-2.35.0'' = Inr (''nginx'', ''apache-2.35.0'')"
    by (simp add: parseImageString_def ImageTagPattern_def newline_def)
  have e: "extractVersionFromTag ''apache-2.35.0'' = Inr (''apache-'', ''2.35.0'')"
    by (simp add: extractVersionFromTag_def SemverTagPattern_def triplet_def digits_def isDigit_def newline_def)
  have n: "NewVersion ''2.35.0'' =
     Some \<lparr>major = 2, minor = 35, patch = 0, pre = [], metadata = [], original = ''2.35.0''\<rparr>"
    by (simp add: NewVersion_eval)
  show ?thesis
    by (simp add: CheckImage_def p e n scenario_latest Compare_eval)
qed

section \<open>Branch names of the two commands\<close>

text \<open>
  With one-character arguments \<^verbatim>\<open>ReplaceAll\<close> maps the text character by character.  So
  \<^verbatim>\<open>generateBranchName\<close> (command \<^verbatim>\<open>scan\<close>) replaces every \<^verbatim>\<open>/\<close>, \<^verbatim>\<open>:\<close> and \<^verbatim>\<open>.\<close> of
  the service name by \<^verbatim>\<open>-\<close>, and the loop of \<^verbatim>\<open>createMergeRequestsForUpdates\<close> (command
  \<^verbatim>\<open>check\<close>) replaces every \<^verbatim>\<open>/\<close> and nothing else.  The timestamp is made of the
  fields down to the second.
\<close>

lemma HasPrefix_single: "HasPrefix (c # s) [a] = (c = a)"
  by (simp add: HasPrefix_def)

lemma replaceScan_char: "replaceScan 0 s [a] [b] = map (\<lambda>c. if c = a then b else c) s"
  by (induction s) (simp_all add: HasPrefix_single)

lemma ReplaceAll_char: "ReplaceAll s [a] [b] = map (\<lambda>c. if c = a then b else c) s"
  by (simp add: ReplaceAll_def replaceScan_char)

lemma sanitizeBranchName_map:
  "sanitizeBranchName name =
     map (\<lambda>c. if c = CHR ''/'' \<or> c = CHR '':'' \<or> c = CHR ''.'' then CHR ''-'' else c) name"
  by (simp add: sanitizeBranchName_def ReplaceAll_char)

lemma generateBranchName_form:
  "generateBranchName now serviceName =
     ''img-upgr/'' @
     map (\<lambda>c. if c = CHR ''/'' \<or> c = CHR '':'' \<or> c = CHR ''.'' then CHR ''-'' else c) serviceName @
     ''-'' @ Format now"
  by (simp add: generateBranchName_def sanitizeBranchName_map)

lemma checkBranchName_form:
  "checkBranchName now serviceName =
     ''img-upgr/'' @ map (\<lambda>c. if c = CHR ''/'' then CHR ''-'' else c) serviceName @ ''-'' @ Format now"
  by (simp add: checkBranchName_def ReplaceAll_char)

lemma Format_second_resolution: "Format (t\<lparr>Nanosecond := n\<rparr>) = Format t"
  by (simp add: Format_def)

text \<open>
  Claim C7.  The branch of an update is named \<^verbatim>\<open>img-upgr/<sanitized-service-name>-<timestamp>\<close>,
  every \<^verbatim>\<open>/\<close>, \<^verbatim>\<open>:\<close> and \<^verbatim>\<open>.\<close> of the service name replaced by \<^verbatim>\<open>-\<close>.  Command
  \<^verbatim>\<open>scan\<close> does so; command \<^verbatim>\<open>check\<close> does not: for the service \<^verbatim>\<open>web.api\<close>, on
  2025-01-02 at 03:04:05, its loop names the branch \<^verbatim>\<open>img-upgr/web.api-20250102-030405\<close>,
  where \<^verbatim>\<open>generateBranchName\<close> gives \<^verbatim>\<open>img-upgr/web-api-20250102-030405\<close>.
\<close>

theorem checkBranchName_keeps_dot:
  "checkBranchName \<lparr>Year = 2025, Month = 1, Day = 2, Hour = 3, Minute = 4, Second = 5, Nanosecond = 0\<rparr>
     ''web.api'' = ''img-upgr/web.api-20250102-030405'' \<and>
   generateBranchName \<lparr>Year = 2025, Month = 1, Day = 2, Hour = 3, Minute = 4, Second = 5, Nanosecond = 0\<rparr>
     ''web.api'' = ''img-upgr/web-api-20250102-030405''"
  by (simp add: checkBranchName_form generateBranchName_form Format_def pad_def formatNat.simps digitChar_def)

section \<open>Failures in a batch of updates\<close>

text \<open>
  Neither loop stops at an update that fails.  As long as the context is not cancelled,
  \<^verbatim>\<open>createMergeRequestsForUpdates\<close> makes its pass over every update, whatever became of
  the ones before, and returns no error; a cancelled context ends it before the next
  update.  \<^verbatim>\<open>createMergeRequests\<close> logs the failure of an update with the name of its
  service and goes on with the rest.
\<close>

lemma createMergeRequestsForUpdates_all_passes:
  assumes "\<And>w. \<not> Done g w"
  shows "createMergeRequestsForUpdates g updates st =
     (None, foldl (\<lambda>s update. createMergeRequestsForUpdates_pass g update s) st updates)"
  using assms by (induction updates arbitrary: st) simp_all

lemma createMergeRequestsForUpdates_cancelled:
  "Done g (fst st) \<Longrightarrow> createMergeRequestsForUpdates g (update # updates) st = (Some ContextError, st)"
  by simp

lemma createMergeRequests_each_failure:
  assumes "createMergeRequestForUpdate cfg g update st = (Some err, w, logged)"
  shows "createMergeRequests_each cfg g (update # updates) st =
     createMergeRequests_each cfg g updates
       (w, logged @ [Log ERROR ''Failed to create merge request for %s: %v'' [ServiceName update, err]])"
  using assms by simp

lemma createMergeRequests_each_success:
  assumes "createMergeRequestForUpdate cfg g update st = (None, w, logged)"
  shows "createMergeRequests_each cfg g (update # updates) st =
     createMergeRequests_each cfg g updates
       (w, logged @ [Log INFO ''Created merge request successfully for %s'' [ServiceName update]])"
  using assms by simp

lemmas batch_eval =
  batchGateway_def batchUpdates_def batchWorld_def batchConfig_def pushError_def New_def
  DefaultLogLevel_def DefaultOutputFormat_def DefaultTargetBranch_def
  commitMessage_def mergeRequestTitle_def Let_def
  Format_def pad_def formatNat.simps digitChar_def

text \<open>
  Claim C8.  A failure of one update is to be logged with the name of its service, and the
  batch goes on.  In the batch of the updates for \<^verbatim>\<open>db\<close> and \<^verbatim>\<open>cache\<close> where the push for
  \<^verbatim>\<open>db\<close> fails, both commands go on and create the merge request for \<^verbatim>\<open>cache\<close>.
  Command \<^verbatim>\<open>check\<close> (the first equation) logs the failure as
  \<^verbatim>\<open>Error committing changes: %v\<close> with the error alone: the entry does not name the
  service.  Command \<^verbatim>\<open>scan\<close> (the second equation) logs
  \<^verbatim>\<open>Failed to create merge request for %s: %v\<close> with the service name and the error.
\<close>

theorem createMergeRequestsForUpdates_push_failure:
  "createMergeRequestsForUpdates batchGateway batchUpdates (batchWorld, []) =
     (None,
      \<lparr>branch = ''img-upgr/cache-20250102-030405'',
        pushed = [''Update Docker image for cache in docker-compose.yml''],
        proposals = [''Update cache from 7.0.0 to 7.0.1'']\<rparr>,
      [Log INFO ''Creating branch %s for updating %s from default branch %s''
         [''img-upgr/db-20250102-030405'', ''db'', ''main''],
       Log INFO (''Updating %s: %s '' @ arrow @ '' %s'') [''db'', ''postgres:15.1.0'', ''postgres:15.2.0''],
       Log INFO ''Committing changes to %s'' [''docker-compose.yml''],
       Log ERROR ''Error committing changes: %v''
         [''failed to push changes: git push origin HEAD failed: exit status 1''],
       Log INFO ''Creating branch %s for updating %s from default branch %s''
         [''img-upgr/cache-20250102-030405'', ''cache'', ''main''],
       Log INFO (''Updating %s: %s '' @ arrow @ '' %s'') [''cache'', ''redis:7.0.0'', ''redis:7.0.1''],
       Log INFO ''Committing changes to %s'' [''docker-compose.yml''],
       Log INFO ''Creating merge request for %s targeting %s'' [''cache'', ''main''],
       Log INFO ''Created merge request successfully for %s'' [''cache'']]) \<and>
   createMergeRequests batchConfig batchGateway batchUpdates (batchWorld, []) =
     (\<lparr>branch = ''img-upgr/cache-20250102-030405'',
        pushed = [''Update Docker image for cache in docker-compose.yml''],
        proposals = [''Update cache from 7.0.0 to 7.0.1'']\<rparr>,
      [Log INFO ''Creating branch %s for updating %s'' [''img-upgr/db-20250102-030405'', ''db''],
       Log INFO ''Committing changes to %s'' [''docker-compose.yml''],
       Log ERROR ''Failed to create merge request for %s: %v''
         [''db'', ''failed to commit changes: failed to push changes: git push origin HEAD failed: exit status 1''],
       Log INFO ''Creating branch %s for updating %s'' [''img-upgr/cache-20250102-030405'', ''cache''],
       Log INFO ''Committing changes to %s'' [''docker-compose.yml''],
       Log INFO ''Creating merge request for %s'' [''cache''],
       Log INFO ''Created merge request successfully for %s'' [''cache'']])"
proof -
  have check: "createMergeRequestsForUpdates batchGateway batchUpdates (batchWorld, []) =
     (None,
      \<lparr>branch = ''img-upgr/cache-20250102-030405'',
        pushed = [''Update Docker image for cache in docker-compose.yml''],
        proposals = [''Update cache from 7.0.0 to 7.0.1'']\<rparr>,
      [Log INFO ''Creating branch %s for updating %s from default branch %s''
         [''img-upgr/db-20250102-030405'', ''db'', ''main''],
       Log INFO (''Updating %s: %s '' @ arrow @ '' %s'') [''db'', ''postgres:15.1.0'', ''postgres:15.2.0''],
       Log INFO ''Committing changes to %s'' [''docker-compose.yml''],
       Log ERROR ''Error committing changes: %v''
         [''failed to push changes: git push origin HEAD failed: exit status 1''],
       Log INFO ''Creating branch %s for updating %s from default branch %s''
         [''img-upgr/cache-20250102-030405'', ''cache'', ''main''],
       Log INFO (''Updating %s: %s '' @ arrow @ '' %s'') [''cache'', ''redis:7.0.0'', ''redis:7.0.1''],
       Log INFO ''Committing changes to %s'' [''docker-compose.yml''],
       Log INFO ''Creating merge request for %s targeting %s'' [''cache'', ''main''],
       Log INFO ''Created merge request successfully for %s'' [''cache'']])"
    by (simp add: createMergeRequestsForUpdates_pass_def checkBranchName_def ReplaceAll_def
        HasPrefix_def batch_eval)
  have scan: "createMergeRequests batchConfig batchGateway batchUpdates (batchWorld, []) =
     (\<lparr>branch = ''img-upgr/cache-20250102-030405'',
        pushed = [''Update Docker image for cache in docker-compose.yml''],
        proposals = [''Update cache from 7.0.0 to 7.0.1'']\<rparr>,
      [Log INFO ''Creating branch %s for updating %s'' [''img-upgr/db-20250102-030405'', ''db''],
       Log INFO ''Committing changes to %s'' [''docker-compose.yml''],
       Log ERROR ''Failed to create merge request for %s: %v''
         [''db'', ''failed to commit changes: failed to push changes: git push origin HEAD failed: exit status 1''],
       Log INFO ''Creating branch %s for updating %s'' [''img-upgr/cache-20250102-030405'', ''cache''],
       Log INFO ''Committing changes to %s'' [''docker-compose.yml''],
       Log INFO ''Creating merge request for %s'' [''cache''],
       Log INFO ''Created merge request successfully for %s'' [''cache'']])"
    by (simp add: createMergeRequests_def createMergeRequestForUpdate_def submitMergeRequest_def
        updateFileContent_def generateBranchName_def sanitizeBranchName_def ReplaceAll_def
        HasPrefix_def batch_eval)
  from check scan show ?thesis by (intro conjI)
qed

end
